theory Spec2Isabelle
  imports Complex_Main
begin

text \<open>
  The market-data processing pipeline of market-data-collector: the cleaning stages of
  \<open>netlify/functions/fetch-market-data.js\<close> (the part that processes market data:
  \<open>handleMissingValues\<close>, \<open>getTimeframeFromData\<close>, \<open>generateExpectedTimestamps\<close>,
  \<open>removeOutliers\<close>, \<open>normalizeData\<close>, \<open>alignTimestamps\<close>), the indicator functions
  of \<open>netlify/functions/calculate-indicators.js\<close>, and the request validation of the
  two handlers, as functions of Isabelle/HOL, with the properties proved about them.
\<close>

section \<open>Data model\<close>

text \<open>
  A candle is the object that the exchange fetcher builds and that every pipeline stage
  copies with the spread operator. Timestamps are integer epoch milliseconds
  (\<^typ>\<open>int\<close>); prices and volume are JavaScript numbers: a \<^typ>\<open>real\<close> stands
  for the finite double with that value. Division by zero is written out where it
  occurs. The running sum of \<open>calculateOBV\<close> is computed with the addition of doubles
  (see the section on JavaScript numbers); the statistics of \<open>removeOutliers\<close> and the
  quotients of \<open>normalizeData\<close> are taken over the reals. The optional members are
  \<open>None\<close> when the member is absent or \<open>undefined\<close>.
\<close>

record candle =
  timestamp :: int
  datetime :: string
  open_c :: real
  high :: real
  low :: real
  close :: real
  volume :: real
  interpolated :: "bool option"
  outlierCorrected :: "bool option"
  originalTimestamp :: "int option"
  normalizedOpen :: "real option"
  normalizedHigh :: "real option"
  normalizedLow :: "real option"
  normalizedClose :: "real option"
  normalizedVolume :: "real option"

datatype error = RangeError | TypeError | SyntaxError

section \<open>JavaScript numbers\<close>

text \<open>
  The result of an arithmetic operation is a finite double, or \<open>NaN\<close> or an infinity:
  \<open>NonFinite\<close>.
\<close>

datatype jsnumber = Num real | NonFinite

text \<open>
  \<open>toDouble x\<close> is the double that IEEE 754 round-to-nearest, ties-to-even, gives for
  the real \<open>x\<close>. A double has a significand of 53 bits, so in the binade
  \<open>2^e \<le> |x| < 2^(e+1)\<close> the doubles are the multiples of \<open>2^(e-52)\<close>; below
  \<open>2^-1022\<close> (the subnormal range) they are the multiples of \<open>2^-1074\<close>. A rounded
  value of magnitude \<open>2^1024\<close> or more overflows to an infinity.
\<close>

definition roundHalfEven :: "real \<Rightarrow> int" where
  "roundHalfEven y =
     (let n = \<lfloor>y\<rfloor>; frac = y - of_int n
      in if frac < 1 / 2 then n else if 1 / 2 < frac then n + 1
         else if even n then n else n + 1)"

definition ulpExponent :: "real \<Rightarrow> int" where
  "ulpExponent x = max \<lfloor>log 2 \<bar>x\<bar>\<rfloor> (- 1022) - 52"

definition toDouble :: "real \<Rightarrow> jsnumber" where
  "toDouble x =
     (if x = 0 then Num 0
      else (let ulp = 2 powr of_int (ulpExponent x);
                r = of_int (roundHalfEven (x / ulp)) * ulp
            in if 2 ^ 1024 \<le> \<bar>r\<bar> then NonFinite else Num r))"

text \<open>
  \<open>a + v\<close> and \<open>a - v\<close> for a running value \<open>a\<close> and a finite double \<open>v\<close>: the
  exact sum or difference, rounded. An infinity or \<open>NaN\<close> stays non-finite.
\<close>

definition jsPlus :: "jsnumber \<Rightarrow> real \<Rightarrow> jsnumber" where
  "jsPlus a v = (case a of Num x \<Rightarrow> toDouble (x + v) | NonFinite \<Rightarrow> NonFinite)"

definition jsMinus :: "jsnumber \<Rightarrow> real \<Rightarrow> jsnumber" where
  "jsMinus a v = (case a of Num x \<Rightarrow> toDouble (x - v) | NonFinite \<Rightarrow> NonFinite)"

section \<open>calculate-indicators.js: On-Balance Volume\<close>

text \<open>
  \<open>calculateOBV\<close>: the \<open>for\<close> loop runs \<open>i\<close> from 1 while \<open>i < data.length\<close> and
  pushes one value per round, computed from \<open>obv[i-1]\<close> with the addition or the
  subtraction of doubles.
\<close>

function calculateOBV_loop :: "candle list \<Rightarrow> nat \<Rightarrow> jsnumber list \<Rightarrow> jsnumber list" where
  "calculateOBV_loop data i obv =
     (if i < length data then
        (let currentClose = close (data ! i);
             previousClose = close (data ! (i - 1));
             currentVolume = volume (data ! i)
         in if currentClose > previousClose then
              calculateOBV_loop data (i + 1) (obv @ [jsPlus (obv ! (i - 1)) currentVolume])
            else if currentClose < previousClose then
              calculateOBV_loop data (i + 1) (obv @ [jsMinus (obv ! (i - 1)) currentVolume])
            else
              calculateOBV_loop data (i + 1) (obv @ [obv ! (i - 1)]))
      else obv)"
  by pat_completeness auto
termination
  by (relation "measure (\<lambda>(data, i, obv). length data - i)") auto

declare calculateOBV_loop.simps [simp del]

definition calculateOBV :: "candle list \<Rightarrow> jsnumber list" where
  "calculateOBV data = (if length data < 2 then [] else calculateOBV_loop data 1 [Num 0])"

section \<open>fetch-market-data.js (process-market-data): normalisation\<close>

text \<open>
  \<open>normalizeData\<close>: the accumulators start at \<open>Infinity\<close> and \<open>-Infinity\<close>, and
  \<open>Math.min(Infinity, x) = x\<close>, so after the first candle they hold that candle's
  fields; the loop over the remaining candles is the fold below. The divisor
  \<open>(max - min || 1)\<close> is 1 exactly when \<open>max - min\<close> is 0.
\<close>

definition orOne :: "real \<Rightarrow> real" where
  "orOne d = (if d = 0 then 1 else d)"

fun normalizeData :: "candle list \<Rightarrow> candle list" where
  "normalizeData [] = []"
| "normalizeData (c0 # rest) =
     (let data = c0 # rest;
          minOpen = fold (\<lambda>candle m. min m (open_c candle)) rest (open_c c0);
          maxOpen = fold (\<lambda>candle m. max m (open_c candle)) rest (open_c c0);
          minHigh = fold (\<lambda>candle m. min m (high candle)) rest (high c0);
          maxHigh = fold (\<lambda>candle m. max m (high candle)) rest (high c0);
          minLow = fold (\<lambda>candle m. min m (low candle)) rest (low c0);
          maxLow = fold (\<lambda>candle m. max m (low candle)) rest (low c0);
          minClose = fold (\<lambda>candle m. min m (close candle)) rest (close c0);
          maxClose = fold (\<lambda>candle m. max m (close candle)) rest (close c0);
          minVolume = fold (\<lambda>candle m. min m (volume candle)) rest (volume c0);
          maxVolume = fold (\<lambda>candle m. max m (volume candle)) rest (volume c0)
      in map (\<lambda>candle. candle
           \<lparr> normalizedOpen := Some ((open_c candle - minOpen) / orOne (maxOpen - minOpen)),
             normalizedHigh := Some ((high candle - minHigh) / orOne (maxHigh - minHigh)),
             normalizedLow := Some ((low candle - minLow) / orOne (maxLow - minLow)),
             normalizedClose := Some ((close candle - minClose) / orOne (maxClose - minClose)),
             normalizedVolume := Some ((volume candle - minVolume) / orOne (maxVolume - minVolume)) \<rparr>)
           data)"

section \<open>fetch-market-data.js (process-market-data): timeframe inference\<close>

text \<open>
  \<open>getTimeframeFromData\<close>: the differences of the first \<open>min(data.length, 10)\<close>
  candles, then one pass that counts each difference in \<open>differenceCounts\<close> and keeps
  the first difference whose running count exceeds \<open>maxCount\<close>. \<open>None\<close> is the
  \<open>null\<close> it returns for fewer than two candles.
\<close>

definition differences :: "candle list \<Rightarrow> int list" where
  "differences data =
     map (\<lambda>i. timestamp (data ! i) - timestamp (data ! (i - 1))) [1 ..< min (length data) 10]"

definition countDiff :: "int \<Rightarrow> (int \<rightharpoonup> nat) \<times> nat \<times> int \<Rightarrow> (int \<rightharpoonup> nat) \<times> nat \<times> int" where
  "countDiff diff st =
     (case st of (differenceCounts, maxCount, mostCommonDiff) \<Rightarrow>
        (let n = (case differenceCounts diff of None \<Rightarrow> 0 | Some c \<Rightarrow> c) + 1;
             differenceCounts' = differenceCounts(diff \<mapsto> n)
         in if n > maxCount then (differenceCounts', n, diff)
            else (differenceCounts', maxCount, mostCommonDiff)))"

definition getTimeframeFromData :: "candle list \<Rightarrow> int option" where
  "getTimeframeFromData data =
     (if length data < 2 then None
      else (case fold countDiff (differences data) (Map.empty, 0, differences data ! 0) of
              (differenceCounts, maxCount, mostCommonDiff) \<Rightarrow> Some mostCommonDiff))"

text \<open>\<open>!timeframe\<close> holds for \<open>null\<close> and for 0.\<close>

definition undetectable :: "int option \<Rightarrow> bool" where
  "undetectable timeframe = (case timeframe of None \<Rightarrow> True | Some tf \<Rightarrow> tf = 0)"

section \<open>Dates\<close>

text \<open>
  \<open>new Date(t).toISOString()\<close> throws a \<open>RangeError\<close> when \<open>t\<close> is not a time value
  (more than 8.64e15 ms from the epoch). The rendering itself is the parameter \<open>isoString\<close>.
\<close>

definition timeValue :: "int \<Rightarrow> bool" where
  "timeValue t = (- 8640000000000000 \<le> t \<and> t \<le> 8640000000000000)"

definition toISOString :: "(int \<Rightarrow> string) \<Rightarrow> int \<Rightarrow> error + string" where
  "toISOString isoString t = (if timeValue t then Inr (isoString t) else Inl RangeError)"

section \<open>fetch-market-data.js (process-market-data): timestamp alignment\<close>

text \<open>
  \<open>Array.prototype.map\<close> with a callback that may throw: the first error ends the map.
\<close>

fun mapE :: "('a \<Rightarrow> error + 'b) \<Rightarrow> 'a list \<Rightarrow> error + 'b list" where
  "mapE f [] = Inr []"
| "mapE f (x # xs) =
     (case f x of Inl e \<Rightarrow> Inl e
      | Inr y \<Rightarrow> (case mapE f xs of Inl e \<Rightarrow> Inl e | Inr ys \<Rightarrow> Inr (y # ys)))"

text \<open>
  \<open>Math.floor(timestamp / timeframe) * timeframe\<close> on integers is \<open>div\<close>, which rounds
  towards minus infinity for either sign of the divisor.
\<close>

definition alignCandle :: "(int \<Rightarrow> string) \<Rightarrow> int \<Rightarrow> candle \<Rightarrow> error + candle" where
  "alignCandle isoString timeframe candle =
     (let ts = timestamp candle;
          alignedTimestamp = (ts div timeframe) * timeframe
      in case toISOString isoString alignedTimestamp of
           Inl e \<Rightarrow> Inl e
         | Inr s \<Rightarrow> Inr (candle \<lparr> timestamp := alignedTimestamp, datetime := s,
                  originalTimestamp := (if ts \<noteq> alignedTimestamp then Some ts else None) \<rparr>))"

definition alignTimestamps :: "(int \<Rightarrow> string) \<Rightarrow> candle list \<Rightarrow> error + candle list" where
  "alignTimestamps isoString data =
     (if data = [] then Inr []
      else (let timeframe = getTimeframeFromData data
            in if undetectable timeframe then Inr data
               else mapE (alignCandle isoString (the timeframe)) data))"

section \<open>fetch-market-data.js (process-market-data): gap filling\<close>

text \<open>
  \<open>generateExpectedTimestamps\<close>: the \<open>while\<close> loop does not end when the stride is not
  positive and the start is not after the end, so the loop is a partial function and
  \<open>None\<close> is "does not return".
\<close>

partial_function (option) generateExpectedTimestamps_loop ::
  "int \<Rightarrow> int \<Rightarrow> int \<Rightarrow> int list \<Rightarrow> int list option" where
  "generateExpectedTimestamps_loop currentTimestamp endTimestamp timeframeMs timestamps =
     (if currentTimestamp \<le> endTimestamp then
        generateExpectedTimestamps_loop (currentTimestamp + timeframeMs) endTimestamp timeframeMs
          (timestamps @ [currentTimestamp])
      else Some timestamps)"

definition generateExpectedTimestamps :: "int \<Rightarrow> int \<Rightarrow> int \<Rightarrow> int list option" where
  "generateExpectedTimestamps startTimestamp endTimestamp timeframeMs =
     generateExpectedTimestamps_loop startTimestamp endTimestamp timeframeMs []"

text \<open>\<open>dataMap\<close>: a later candle with the same timestamp replaces an earlier one.\<close>

definition mkDataMap :: "candle list \<Rightarrow> (int \<rightharpoonup> candle)" where
  "mkDataMap sortedData = fold (\<lambda>candle m. m(timestamp candle \<mapsto> candle)) sortedData Map.empty"

definition forwardFill :: "int \<Rightarrow> string \<Rightarrow> candle \<Rightarrow> candle" where
  "forwardFill ts s lastValidCandle =
     \<lparr> timestamp = ts, datetime = s,
       open_c = close lastValidCandle, high = close lastValidCandle,
       low = close lastValidCandle, close = close lastValidCandle,
       volume = 0, interpolated = Some True, outlierCorrected = None,
       originalTimestamp = None, normalizedOpen = None, normalizedHigh = None,
       normalizedLow = None, normalizedClose = None, normalizedVolume = None \<rparr>"

text \<open>
  The \<open>forEach\<close> over the expected timestamps, with \<open>filledData\<close> and
  \<open>lastValidCandle\<close> as the state. \<open>lastValidCandle\<close> changes only on an existing candle.
\<close>

fun fillLoop :: "(int \<Rightarrow> string) \<Rightarrow> (int \<rightharpoonup> candle) \<Rightarrow> int list \<Rightarrow> candle list \<Rightarrow>
    candle option \<Rightarrow> error + candle list" where
  "fillLoop isoString dataMap [] filledData lastValidCandle = Inr filledData"
| "fillLoop isoString dataMap (ts # rest) filledData lastValidCandle =
     (case dataMap ts of
        Some c \<Rightarrow> fillLoop isoString dataMap rest (filledData @ [c]) (Some c)
      | None \<Rightarrow>
          (case lastValidCandle of
             Some lv \<Rightarrow>
               (case toISOString isoString ts of
                  Inl e \<Rightarrow> Inl e
                | Inr s \<Rightarrow> fillLoop isoString dataMap rest (filledData @ [forwardFill ts s lv])
                             lastValidCandle)
           | None \<Rightarrow> fillLoop isoString dataMap rest filledData lastValidCandle))"

text \<open>
  \<open>handleMissingValues\<close>: \<open>[...data].sort((a, b) => a.timestamp - b.timestamp)\<close> is
  a stable sort by timestamp. The result is \<open>None\<close> when the call does not return,
  \<open>Some (Inl e)\<close> when it throws and \<open>Some (Inr out)\<close> when it returns \<open>out\<close>.
\<close>

definition handleMissingValues :: "(int \<Rightarrow> string) \<Rightarrow> candle list \<Rightarrow> (error + candle list) option" where
  "handleMissingValues isoString data =
     (if data = [] then Some (Inr [])
      else (let sortedData = sort_key timestamp data;
                timeframe = getTimeframeFromData sortedData
            in if undetectable timeframe then Some (Inr sortedData)
               else (case generateExpectedTimestamps (timestamp (sortedData ! 0))
                            (timestamp (sortedData ! (length sortedData - 1))) (the timeframe) of
                       None \<Rightarrow> None
                     | Some expectedTimestamps \<Rightarrow>
                         Some (fillLoop isoString (mkDataMap sortedData) expectedTimestamps [] None))))"

section \<open>fetch-market-data.js (process-market-data): outlier correction\<close>








section \<open>calculate-indicators.js: library-backed indicators\<close>

text \<open>
  The windowed formulas are computed by the \<open>technicalindicators\<close> package, which is
  not part of the repository: each \<open>calculate\<close> function of the package is a
  parameter here. What the repository's code does is the length guard, the call, and the
  left padding with \<open>null\<close>: \<open>Array(n).fill(null)\<close>, which throws a
  \<open>RangeError\<close> for a negative \<open>n\<close>. In an output series \<open>None\<close> is \<open>null\<close>
  (or \<open>undefined\<close>, for a member that a package result leaves out).
\<close>

definition calculateSMA ::
  "(int \<Rightarrow> real list \<Rightarrow> real list) \<Rightarrow> candle list \<Rightarrow> int \<Rightarrow> error + real option list" where
  "calculateSMA SMA_calculate data period =
     (if int (length data) < period then Inr []
      else (let closes = map close data;
                sma = SMA_calculate period closes
            in if length data < length sma then Inl RangeError
               else Inr (replicate (length data - length sma) None @ map Some sma)))"

definition calculateEMA ::
  "(int \<Rightarrow> real list \<Rightarrow> real list) \<Rightarrow> candle list \<Rightarrow> int \<Rightarrow> error + real option list" where
  "calculateEMA EMA_calculate data period =
     (if int (length data) < period then Inr []
      else (let closes = map close data;
                ema = EMA_calculate period closes
            in if length data < length ema then Inl RangeError
               else Inr (replicate (length data - length ema) None @ map Some ema)))"

definition calculateRSI ::
  "(int \<Rightarrow> real list \<Rightarrow> real list) \<Rightarrow> candle list \<Rightarrow> int \<Rightarrow> error + real option list" where
  "calculateRSI RSI_calculate data period =
     (if int (length data) < period + 1 then Inr []
      else (let closes = map close data;
                rsi = RSI_calculate period closes
            in if length data < length rsi then Inl RangeError
               else Inr (replicate (length data - length rsi) None @ map Some rsi)))"

record macd_item =
  item_MACD :: "real option"
  item_signal :: "real option"
  item_histogram :: "real option"

record macd_series =
  macd_out :: "real option list"
  signal_out :: "real option list"
  histogram_out :: "real option list"

definition calculateMACD ::
  "(int \<Rightarrow> int \<Rightarrow> int \<Rightarrow> real list \<Rightarrow> macd_item list) \<Rightarrow> candle list \<Rightarrow> int \<Rightarrow> int \<Rightarrow> int \<Rightarrow>
   error + macd_series" where
  "calculateMACD MACD_calculate data fastPeriod slowPeriod signalPeriod =
     (if int (length data) < slowPeriod + signalPeriod then
        Inr \<lparr> macd_out = [], signal_out = [], histogram_out = [] \<rparr>
      else (let closes = map close data;
                macdResult = MACD_calculate fastPeriod slowPeriod signalPeriod closes;
                macd = map item_MACD macdResult;
                signal = map item_signal macdResult;
                histogram = map item_histogram macdResult
            in if length data < length macd then Inl RangeError
               else (let padding = replicate (length data - length macd) None
                     in Inr \<lparr> macd_out = padding @ macd, signal_out = padding @ signal,
                              histogram_out = padding @ histogram \<rparr>)))"

record bb_item =
  item_upper :: "real option"
  item_middle :: "real option"
  item_lower :: "real option"

record bb_series =
  upper_out :: "real option list"
  middle_out :: "real option list"
  lower_out :: "real option list"

definition calculateBollingerBands ::
  "(int \<Rightarrow> real list \<Rightarrow> real \<Rightarrow> bb_item list) \<Rightarrow> candle list \<Rightarrow> int \<Rightarrow> real \<Rightarrow>
   error + bb_series" where
  "calculateBollingerBands BollingerBands_calculate data period stdDev =
     (if int (length data) < period then
        Inr \<lparr> upper_out = [], middle_out = [], lower_out = [] \<rparr>
      else (let closes = map close data;
                bbResult = BollingerBands_calculate period closes stdDev;
                upper = map item_upper bbResult;
                middle = map item_middle bbResult;
                lower = map item_lower bbResult
            in if length data < length upper then Inl RangeError
               else (let padding = replicate (length data - length upper) None
                     in Inr \<lparr> upper_out = padding @ upper, middle_out = padding @ middle,
                              lower_out = padding @ lower \<rparr>)))"

definition calculateATR ::
  "(int \<Rightarrow> real list \<Rightarrow> real list \<Rightarrow> real list \<Rightarrow> real list) \<Rightarrow> candle list \<Rightarrow> int \<Rightarrow>
   error + real option list" where
  "calculateATR ATR_calculate data period =
     (if int (length data) < period + 1 then Inr []
      else (let atrInput = map (\<lambda>candle. (high candle, low candle, close candle)) data;
                atr = ATR_calculate period (map fst atrInput) (map (fst \<circ> snd) atrInput)
                        (map (snd \<circ> snd) atrInput)
            in if length data < length atr then Inl RangeError
               else Inr (replicate (length data - length atr) None @ map Some atr)))"

record stoch_item =
  item_k :: "real option"
  item_d :: "real option"

record stoch_series =
  k_out :: "real option list"
  d_out :: "real option list"

definition calculateStochastic ::
  "(int \<Rightarrow> int \<Rightarrow> real list \<Rightarrow> real list \<Rightarrow> real list \<Rightarrow> stoch_item list) \<Rightarrow> candle list \<Rightarrow>
   int \<Rightarrow> int \<Rightarrow> error + stoch_series" where
  "calculateStochastic Stochastic_calculate data period signalPeriod =
     (if int (length data) < period then Inr \<lparr> k_out = [], d_out = [] \<rparr>
      else (let stochInput = map (\<lambda>candle. (high candle, low candle, close candle)) data;
                stoch = Stochastic_calculate period signalPeriod (map fst stochInput)
                          (map (fst \<circ> snd) stochInput) (map (snd \<circ> snd) stochInput);
                k = map item_k stoch;
                d = map item_d stoch
            in if length data < length k then Inl RangeError
               else (let padding = replicate (length data - length k) None
                     in Inr \<lparr> k_out = padding @ k, d_out = padding @ d \<rparr>)))"

section \<open>calculate-indicators.js: percentage returns\<close>

text \<open>
  \<open>((currentClose - previousClose) / previousClose) * 100\<close> is \<open>NaN\<close> or an infinity
  when the previous close is 0: \<open>NonFinite\<close>.
\<close>

definition returnValue :: "real \<Rightarrow> real \<Rightarrow> jsnumber" where
  "returnValue currentClose previousClose =
     (if previousClose = 0 then NonFinite
      else Num (((currentClose - previousClose) / previousClose) * 100))"

function calculateReturns_loop :: "candle list \<Rightarrow> nat \<Rightarrow> jsnumber option list \<Rightarrow> jsnumber option list" where
  "calculateReturns_loop data i returns =
     (if i < length data then
        calculateReturns_loop data (i + 1)
          (returns @ [Some (returnValue (close (data ! i)) (close (data ! (i - 1))))])
      else returns)"
  by pat_completeness auto
termination
  by (relation "measure (\<lambda>(data, i, returns). length data - i)") auto

declare calculateReturns_loop.simps [simp del]

definition calculateReturns :: "candle list \<Rightarrow> jsnumber option list" where
  "calculateReturns data = (if length data < 2 then [] else calculateReturns_loop data 1 [None])"

section \<open>The two request handlers: validation of the request\<close>

text \<open>
  The parsed request body is a JSON value. \<open>JSON.parse\<close>, the message of an error and
  the work done after the validation (the cleaning steps, the indicator dispatch) are
  parameters of the handlers: what is modelled is the path from the event to the
  validation result. A response's body is the value handed to \<open>JSON.stringify\<close>.
\<close>

datatype json = JNull | JBool bool | JNum real | JStr string | JArr "json list"
  | JObj "(string \<times> json) list"

record event =
  httpMethod :: string
  event_body :: string

record response =
  statusCode :: nat
  headers :: "(string \<times> string) list"
  response_body :: json

definition corsHeaders :: "(string \<times> string) list" where
  "corsHeaders =
     [(''Access-Control-Allow-Origin'', ''*''),
      (''Access-Control-Allow-Headers'', ''Content-Type''),
      (''Access-Control-Allow-Methods'', ''GET, POST, OPTIONS'')]"

text \<open>
  Reading a member of the parsed body: \<open>undefined\<close> (\<open>None\<close>) when the body is not an
  object or has no such member; the last of several equal keys wins in \<open>JSON.parse\<close>.
\<close>

definition getMember :: "json \<Rightarrow> string \<Rightarrow> json option" where
  "getMember v key = (case v of JObj members \<Rightarrow> map_of (rev members) key | _ \<Rightarrow> None)"

definition truthy :: "json option \<Rightarrow> bool" where
  "truthy v =
     (case v of
        None \<Rightarrow> False
      | Some JNull \<Rightarrow> False
      | Some (JBool b) \<Rightarrow> b
      | Some (JNum x) \<Rightarrow> x \<noteq> 0
      | Some (JStr s) \<Rightarrow> s \<noteq> []
      | Some (JArr xs) \<Rightarrow> True
      | Some (JObj members) \<Rightarrow> True)"

definition isArray :: "json option \<Rightarrow> bool" where
  "isArray v = (case v of Some (JArr xs) \<Rightarrow> True | _ \<Rightarrow> False)"

definition elements :: "json option \<Rightarrow> json list" where
  "elements v = (case v of Some (JArr xs) \<Rightarrow> xs | _ \<Rightarrow> [])"

definition preflightResponse :: response where
  "preflightResponse =
     \<lparr> statusCode = 200, headers = corsHeaders,
       response_body = JObj [(''message'', JStr ''CORS preflight request successful'')] \<rparr>"

definition methodNotAllowed :: response where
  "methodNotAllowed =
     \<lparr> statusCode = 405, headers = corsHeaders,
       response_body = JObj [(''error'', JStr ''Method not allowed'')] \<rparr>"

definition validationError :: response where
  "validationError =
     \<lparr> statusCode = 400, headers = corsHeaders,
       response_body = JObj [(''error'', JStr ''Missing or invalid data parameter''),
                             (''required'', JStr ''Array of OHLCV data objects'')] \<rparr>"

definition internalError :: "string \<Rightarrow> response" where
  "internalError msg =
     \<lparr> statusCode = 500, headers = corsHeaders,
       response_body = JObj [(''error'', JStr ''Internal server error''),
                             (''message'', JStr msg)] \<rparr>"

text \<open>
  The handler of process-market-data. Destructuring \<open>null\<close> throws a \<open>TypeError\<close>;
  \<open>options\<close> defaults to \<open>{}\<close> when the member is \<open>undefined\<close>. \<open>processData\<close> is
  the code after the validation: it gets the array and the options and returns the
  response body or throws.
\<close>

definition processHandler ::
  "(string \<Rightarrow> error + json) \<Rightarrow> (error \<Rightarrow> string) \<Rightarrow> (json list \<Rightarrow> json \<Rightarrow> error + json) \<Rightarrow>
   event \<Rightarrow> response" where
  "processHandler JSON_parse message processData ev =
     (if httpMethod ev = ''OPTIONS'' then preflightResponse
      else if httpMethod ev \<noteq> ''POST'' then methodNotAllowed
      else (case JSON_parse (event_body ev) of
              Inl e \<Rightarrow> internalError (message e)
            | Inr requestBody \<Rightarrow>
                if requestBody = JNull then internalError (message TypeError)
                else (let data = getMember requestBody ''data'';
                          options = (case getMember requestBody ''options'' of
                                       None \<Rightarrow> JObj [] | Some v \<Rightarrow> v)
                      in if \<not> truthy data \<or> \<not> isArray data then validationError
                         else (case processData (elements data) options of
                                 Inl e \<Rightarrow> internalError (message e)
                               | Inr result \<Rightarrow>
                                   \<lparr> statusCode = 200, headers = corsHeaders,
                                     response_body = result \<rparr>))))"

text \<open>
  The handler of calculate-indicators: \<open>indicators\<close> defaults to
  \<open>['sma', 'ema', 'rsi']\<close> and \<open>parameters\<close> to \<open>{}\<close>.
\<close>

definition indicatorsHandler ::
  "(string \<Rightarrow> error + json) \<Rightarrow> (error \<Rightarrow> string) \<Rightarrow>
   (json list \<Rightarrow> json \<Rightarrow> json \<Rightarrow> error + json) \<Rightarrow> event \<Rightarrow> response" where
  "indicatorsHandler JSON_parse message computeIndicators ev =
     (if httpMethod ev = ''OPTIONS'' then preflightResponse
      else if httpMethod ev \<noteq> ''POST'' then methodNotAllowed
      else (case JSON_parse (event_body ev) of
              Inl e \<Rightarrow> internalError (message e)
            | Inr requestBody \<Rightarrow>
                if requestBody = JNull then internalError (message TypeError)
                else (let data = getMember requestBody ''data'';
                          indicators = (case getMember requestBody ''indicators'' of
                                          None \<Rightarrow> JArr [JStr ''sma'', JStr ''ema'', JStr ''rsi'']
                                        | Some v \<Rightarrow> v);
                          parameters = (case getMember requestBody ''parameters'' of
                                          None \<Rightarrow> JObj [] | Some v \<Rightarrow> v)
                      in if \<not> truthy data \<or> \<not> isArray data then validationError
                         else (case computeIndicators (elements data) indicators parameters of
                                 Inl e \<Rightarrow> internalError (message e)
                               | Inr result \<Rightarrow>
                                   \<lparr> statusCode = 200, headers = corsHeaders,
                                     response_body = result \<rparr>))))"

section \<open>Auxiliary notions for the proofs\<close>

text \<open>
  The value that \<open>normalizeData\<close> stores for a field \<open>f\<close>, written with the minimum
  and the maximum of the field over the batch.
\<close>

definition normalizedValue :: "(candle \<Rightarrow> real) \<Rightarrow> candle list \<Rightarrow> candle \<Rightarrow> real" where
  "normalizedValue f data c =
     (f c - Min (f ` set data)) / orOne (Max (f ` set data) - Min (f ` set data))"

text \<open>
  The invariant of the counting pass of \<open>getTimeframeFromData\<close> after the differences
  \<open>ps\<close>: the table holds the number of occurrences of each difference seen,
  \<open>maxCount\<close> bounds them all, and the difference kept has that many occurrences.
\<close>

definition modeInv :: "int \<Rightarrow> int list \<Rightarrow> (int \<rightharpoonup> nat) \<times> nat \<times> int \<Rightarrow> bool" where
  "modeInv d0 ps st =
     (case st of (differenceCounts, maxCount, mostCommonDiff) \<Rightarrow>
        (\<forall>d. differenceCounts d =
               (if count_list ps d = 0 then None else Some (count_list ps d))) \<and>
        (\<forall>d. count_list ps d \<le> maxCount) \<and>
        (if ps = [] then maxCount = 0 \<and> mostCommonDiff = d0
         else count_list ps mostCommonDiff = maxCount \<and> mostCommonDiff \<in> set ps))"

text \<open>
  The timestamps that \<open>generateExpectedTimestamps\<close> returns for a positive stride, and
  the relation between the expected timestamps and the candles that the fill loop
  pushes for them, \<open>prev\<close> being the candle pushed before.
\<close>

definition gridList :: "int \<Rightarrow> int \<Rightarrow> nat \<Rightarrow> int list" where
  "gridList start stride n = map (\<lambda>k. start + int k * stride) [0 ..< n]"

fun filledFrom :: "(int \<Rightarrow> string) \<Rightarrow> (int \<rightharpoonup> candle) \<Rightarrow> candle \<Rightarrow> int list \<Rightarrow> candle list \<Rightarrow> bool" where
  "filledFrom isoString dataMap prev [] cs = (cs = [])"
| "filledFrom isoString dataMap prev (t # ts) [] = False"
| "filledFrom isoString dataMap prev (t # ts) (c # cs) =
     ((case dataMap t of Some d \<Rightarrow> c = d
       | None \<Rightarrow> timeValue t \<and> c = forwardFill t (isoString t) prev) \<and>
      filledFrom isoString dataMap c ts cs)"

section \<open>Sample inputs\<close>

text \<open>
  A candle with the seven members that the fetcher sets (the \<open>datetime\<close> left empty)
  and none of the optional members.
\<close>

definition ohlcv :: "int \<Rightarrow> real \<Rightarrow> real \<Rightarrow> real \<Rightarrow> real \<Rightarrow> real \<Rightarrow> candle" where
  "ohlcv ts op hi lo cl vol =
     \<lparr> timestamp = ts, datetime = [], open_c = op, high = hi, low = lo, close = cl,
       volume = vol,
       interpolated = None, outlierCorrected = None, originalTimestamp = None,
       normalizedOpen = None, normalizedHigh = None, normalizedLow = None,
       normalizedClose = None, normalizedVolume = None \<rparr>"

definition obvSample :: "candle list" where
  "obvSample = [ohlcv 0 100 105 98 102 10, ohlcv 3600000 102 108 101 106 12,
                ohlcv 7200000 106 107 100 101 7]"


text \<open>
  Five candles at minutes 2, 7, 14, 17 and 20, and three hourly candles of which the last
  arrived half a second late.
\<close>

definition alignSample :: "candle list" where
  "alignSample =
    [ohlcv 120000 100 105 98 102 10, ohlcv 420000 102 108 101 106 12,
     ohlcv 840000 106 107 100 101 7, ohlcv 1020000 101 104 99 103 9,
     ohlcv 1200000 103 106 102 105 11]"

definition lateSample :: "candle list" where
  "lateSample = [ohlcv 0 100 105 98 102 10, ohlcv 3600000 102 108 101 106 12,
                 ohlcv 7200500 106 107 100 101 7]"

text \<open>
  A date rendering for the samples (no property below depends on the rendering), and the
  alignment sample after one and after two alignments.
\<close>

definition plainDate :: "int \<Rightarrow> string" where
  "plainDate t = []"

definition alignSampleOnce :: "candle list" where
  "alignSampleOnce =
    [(ohlcv 0 100 105 98 102 10) \<lparr> originalTimestamp := Some 120000 \<rparr>,
     (ohlcv 360000 102 108 101 106 12) \<lparr> originalTimestamp := Some 420000 \<rparr>,
     (ohlcv 720000 106 107 100 101 7) \<lparr> originalTimestamp := Some 840000 \<rparr>,
     (ohlcv 900000 101 104 99 103 9) \<lparr> originalTimestamp := Some 1020000 \<rparr>,
     (ohlcv 1080000 103 106 102 105 11) \<lparr> originalTimestamp := Some 1200000 \<rparr>]"

definition alignSampleTwice :: "candle list" where
  "alignSampleTwice =
    [ohlcv 0 100 105 98 102 10, ohlcv 360000 102 108 101 106 12,
     ohlcv 720000 106 107 100 101 7,
     (ohlcv 720000 101 104 99 103 9) \<lparr> originalTimestamp := Some 900000 \<rparr>,
     ohlcv 1080000 103 106 102 105 11]"

definition lateSampleOnce :: "candle list" where
  "lateSampleOnce = [ohlcv 0 100 105 98 102 10, ohlcv 3600000 102 108 101 106 12,
                     (ohlcv 7200000 106 107 100 101 7) \<lparr> originalTimestamp := Some 7200500 \<rparr>]"

text \<open>
  Four hourly candles out of order with the fourth hour missing, the sequence
  \<open>handleMissingValues\<close> returns for them, and five candles at minutes 0, 10, 20, 25
  and 30.
\<close>

definition gapSample :: "candle list" where
  "gapSample = [ohlcv 3600000 102 108 101 106 12, ohlcv 0 100 105 98 102 10,
                ohlcv 14400000 101 104 99 103 9, ohlcv 7200000 106 107 100 101 7]"

definition gapFilled :: "candle list" where
  "gapFilled = [ohlcv 0 100 105 98 102 10, ohlcv 3600000 102 108 101 106 12,
                ohlcv 7200000 106 107 100 101 7,
                (ohlcv 10800000 101 101 101 101 0) \<lparr> interpolated := Some True \<rparr>,
                ohlcv 14400000 101 104 99 103 9]"

definition offGridSample :: "candle list" where
  "offGridSample = [ohlcv 0 100 105 98 102 10, ohlcv 600000 102 108 101 106 12,
                    ohlcv 1200000 106 107 100 101 7, ohlcv 1500000 101 104 99 103 9,
                    ohlcv 1800000 103 106 102 105 11]"

text \<open>
  A stand-in for the package's SMA, the means of the windows of \<open>period\<close> values, and
  twenty candles with a constant close of 100.
\<close>

definition windowMeans :: "int \<Rightarrow> real list \<Rightarrow> real list" where
  "windowMeans period xs =
     map (\<lambda>i. sum_list (take (nat period) (drop i xs)) / real_of_int period)
       [0 ..< length xs + 1 - nat period]"

definition flatSample :: "candle list" where
  "flatSample = replicate 20 (ohlcv 0 100 100 100 100 1)"

text \<open>
  Three candles with rising closes; the volumes of the second and the third are the
  doubles of the decimals 0.1 and 0.2, that is \<open>3602879701896397 / 2^55\<close> and
  \<open>3602879701896397 / 2^54\<close>.
\<close>

definition decimalSample :: "candle list" where
  "decimalSample =
    [ohlcv 0 100 105 98 102 1,
     ohlcv 3600000 102 108 101 106 (3602879701896397 / 36028797018963968),
     ohlcv 7200000 106 109 104 107 (3602879701896397 / 18014398509481984)]"

text \<open>
  Two POST requests, one with the body \<open>null\<close> and one with an empty body, and
  stand-ins for what the handlers take as parameters: \<open>JSON.parse\<close> on the bodies used
  in the samples (\<open>null\<close>, \<open>{}\<close>, and a \<open>SyntaxError\<close> for the empty string; it is
  not applied to any other string), the name of an error for its message, and processing
  code that returns the array it is given.
\<close>

definition nullBodyRequest :: event where
  "nullBodyRequest = \<lparr> httpMethod = ''POST'', event_body = ''null'' \<rparr>"

definition emptyBodyRequest :: event where
  "emptyBodyRequest = \<lparr> httpMethod = ''POST'', event_body = [] \<rparr>"

definition sampleParse :: "string \<Rightarrow> error + json" where
  "sampleParse body =
     (if body = ''null'' then Inr JNull
      else if body = ''{}'' then Inr (JObj [])
      else Inl SyntaxError)"

definition errorName :: "error \<Rightarrow> string" where
  "errorName e =
     (case e of RangeError \<Rightarrow> ''RangeError'' | TypeError \<Rightarrow> ''TypeError''
      | SyntaxError \<Rightarrow> ''SyntaxError'')"

definition passData :: "json list \<Rightarrow> json \<Rightarrow> error + json" where
  "passData xs options = Inr (JArr xs)"

definition passIndicators :: "json list \<Rightarrow> json \<Rightarrow> json \<Rightarrow> error + json" where
  "passIndicators xs indicators parameters = Inr (JArr xs)"

section \<open>Properties\<close>

subsection \<open>Rounding to a double\<close>

text \<open>
  Rounding moves a real by at most half a unit in the last place; a real that is an
  integer multiple of a power of two with a significand below \<open>2^53\<close> is a double and is
  left as it is.
\<close>

lemma roundHalfEven_error: "\<bar>of_int (roundHalfEven y) - y\<bar> \<le> 1 / 2"
proof -
  have "of_int \<lfloor>y\<rfloor> \<le> y" "y < of_int \<lfloor>y\<rfloor> + 1" by linarith+
  then show ?thesis
    by (auto simp: roundHalfEven_def Let_def abs_le_iff)
qed

lemma ulpExponent_eq:
  assumes "2 powr of_int k \<le> \<bar>x\<bar>" "\<bar>x\<bar> < 2 powr (of_int k + 1)" "- 1022 \<le> k"
  shows "ulpExponent x = k - 52"
proof -
  have "0 < \<bar>x\<bar>" using assms(1) by (smt (verit) powr_gt_zero)
  then have "\<lfloor>log 2 \<bar>x\<bar>\<rfloor> = k"
    using assms(1,2) by (simp add: floor_log_eq_powr_iff)
  with assms(3) show ?thesis by (simp add: ulpExponent_def)
qed

lemma toDouble_error:
  assumes "toDouble x = Num r"
  shows "\<bar>r - x\<bar> \<le> max (\<bar>x\<bar> / 2 ^ 53) (2 powr - 1075)"
proof (cases "x = 0")
  case True
  with assms show ?thesis by (simp add: toDouble_def)
next
  case False
  let ?u = "2 powr of_int (ulpExponent x) :: real"
  have upos: "0 < ?u" by simp
  from assms False have r: "r = of_int (roundHalfEven (x / ?u)) * ?u"
    by (simp add: toDouble_def Let_def split: if_splits)
  have "r - x = (of_int (roundHalfEven (x / ?u)) - x / ?u) * ?u"
    using upos by (simp add: r algebra_simps)
  then have "\<bar>r - x\<bar> = \<bar>of_int (roundHalfEven (x / ?u)) - x / ?u\<bar> * ?u"
    using upos by (simp add: abs_mult)
  also have "\<dots> \<le> (1 / 2) * ?u"
    using roundHalfEven_error [of "x / ?u"] upos by (intro mult_right_mono) simp_all
  finally have half: "\<bar>r - x\<bar> \<le> ?u / 2" by simp
  show ?thesis
  proof (cases "- 1022 \<le> \<lfloor>log 2 \<bar>x\<bar>\<rfloor>")
    case True
    then have k: "ulpExponent x = \<lfloor>log 2 \<bar>x\<bar>\<rfloor> - 52" by (simp add: ulpExponent_def)
    have "of_int (\<lfloor>log 2 \<bar>x\<bar>\<rfloor> - 52) \<le> log 2 \<bar>x\<bar> - 52" by simp
    then have "?u \<le> 2 powr (log 2 \<bar>x\<bar> - 52)"
      unfolding k by (intro powr_mono) simp_all
    also have "\<dots> = \<bar>x\<bar> / 2 ^ 52"
      using False by (simp add: powr_diff powr_numeral)
    finally have "?u / 2 \<le> \<bar>x\<bar> / 2 ^ 53" by simp
    with half have "\<bar>r - x\<bar> \<le> \<bar>x\<bar> / 2 ^ 53" by (rule order_trans)
    then show ?thesis by (rule max.coboundedI1)
  next
    case False
    then have k: "ulpExponent x = - 1074" by (simp add: ulpExponent_def)
    have "(2::real) powr - 1075 = 2 powr (- 1074 - 1)" by simp
    also have "\<dots> = 2 powr - 1074 / 2 powr 1" by (rule powr_diff)
    also have "\<dots> = ?u / 2" by (simp add: k)
    finally have "?u / 2 = 2 powr - 1075" by (rule sym)
    with half have "\<bar>r - x\<bar> \<le> 2 powr - 1075" by (simp only:)
    then show ?thesis by (rule max.coboundedI2)
  qed
qed

lemma roundHalfEven_int: "roundHalfEven (of_int n) = n"
  by (simp add: roundHalfEven_def)

lemma toDouble_eval:
  assumes "2 powr of_int k \<le> \<bar>x\<bar>" "\<bar>x\<bar> < 2 powr (of_int k + 1)" "- 1022 \<le> k"
    and "roundHalfEven (x / 2 powr of_int (k - 52)) = n"
    and "\<bar>of_int n * 2 powr of_int (k - 52)\<bar> < (2 :: real) ^ 1024"
  shows "toDouble x = Num (of_int n * 2 powr of_int (k - 52))"
proof -
  have "0 < \<bar>x\<bar>" using assms(1) by (smt (verit) powr_gt_zero)
  then have nz: "x \<noteq> 0" by auto
  have u: "ulpExponent x = k - 52" using assms(1-3) by (rule ulpExponent_eq)
  show ?thesis
    unfolding toDouble_def Let_def u assms(4) using nz assms(5) by simp
qed

lemma toDouble_decimal_sum:
  "toDouble (3602879701896397 / 36028797018963968 + 3602879701896397 / 18014398509481984) =
     Num (5404319552844596 / 18014398509481984)"
proof -
  let ?x = "3602879701896397 / 36028797018963968 + 3602879701896397 / 18014398509481984 :: real"
  have "toDouble ?x = Num (of_int 5404319552844596 * 2 powr of_int (- 2 - 52))"
  proof (rule toDouble_eval)
    show "2 powr of_int (- 2) \<le> \<bar>?x\<bar>" by (simp add: powr_minus powr_numeral)
    show "\<bar>?x\<bar> < 2 powr (of_int (- 2) + 1)" by (simp add: powr_minus powr_numeral)
    show "- 1022 \<le> (- 2 :: int)" by simp
    have e: "?x / 2 powr of_int (- 2 - 52) = 10808639105689191 / 2"
      by (simp add: powr_minus powr_numeral)
    have r: "roundHalfEven (10808639105689191 / 2) = 5404319552844596"
      by (simp add: roundHalfEven_def Let_def)
    show "roundHalfEven (?x / 2 powr of_int (- 2 - 52)) = 5404319552844596"
      unfolding e by (rule r)
    show "\<bar>of_int 5404319552844596 * 2 powr of_int (- 2 - 52)\<bar> < (2 :: real) ^ 1024"
      by (simp add: powr_minus powr_numeral)
  qed
  then show ?thesis by (simp add: powr_minus powr_numeral)
qed

lemma toDouble_exact:
  assumes x: "x = of_int m * 2 powr of_int j" and m: "\<bar>m\<bar> < 2 ^ 53" and j: "- 1074 \<le> j"
    and fin: "\<bar>x\<bar> < 2 ^ 1024"
  shows "toDouble x = Num x"
proof (cases "x = 0")
  case True
  then show ?thesis by (simp add: toDouble_def)
next
  case False
  let ?k = "ulpExponent x"
  have xpos: "0 < \<bar>x\<bar>" using False by simp
  have "\<bar>x\<bar> = \<bar>of_int m\<bar> * 2 powr of_int j" by (simp add: x abs_mult)
  also have "\<dots> < 2 ^ 53 * 2 powr of_int j"
  proof (rule mult_strict_right_mono)
    have "real_of_int \<bar>m\<bar> < real_of_int (2 ^ 53)" using m by (simp only: of_int_less_iff)
    then show "\<bar>real_of_int m\<bar> < 2 ^ 53" by simp
    show "(0 :: real) < 2 powr of_int j" by simp
  qed
  also have "\<dots> = 2 powr (of_int j + 53)"
    by (simp add: powr_add powr_numeral)
  finally have "log 2 \<bar>x\<bar> < of_int j + 53"
    using xpos by (simp add: log_less_iff)
  then have "\<lfloor>log 2 \<bar>x\<bar>\<rfloor> < j + 53" by (simp add: floor_less_iff)
  with j have kj: "?k \<le> j" by (simp add: ulpExponent_def)
  then obtain d where d: "j = ?k + int d" by (metis zle_iff_zadd)
  have "x / 2 powr of_int ?k = of_int m * 2 powr (of_int j - of_int ?k)"
    by (simp add: x powr_diff)
  also have "of_int j - of_int ?k = (real d)" by (simp add: d)
  also have "of_int m * 2 powr (real d) = of_int (m * 2 ^ d)"
    by (simp add: powr_realpow)
  finally have q: "x / 2 powr of_int ?k = of_int (m * 2 ^ d)" .
  have "of_int (roundHalfEven (x / 2 powr of_int ?k)) * 2 powr of_int ?k = x"
    unfolding q roundHalfEven_int using q by (simp add: field_simps)
  with fin False show ?thesis
    by (simp add: toDouble_def Let_def)
qed

lemma toDouble_int: "\<bar>n\<bar> \<le> 2 ^ 53 \<Longrightarrow> toDouble (of_int n) = Num (of_int n)"
proof (cases "\<bar>n\<bar> = 2 ^ 53")
  case True
  assume "\<bar>n\<bar> \<le> 2 ^ 53"
  from True have "n = 2 ^ 53 \<or> n = - (2 ^ 53)" by linarith
  then obtain m :: int where "n = m * 2" "\<bar>m\<bar> < 2 ^ 53" by auto
  then show ?thesis
    by (intro toDouble_exact [where m = m and j = 1]) (simp_all)
next
  case False
  assume "\<bar>n\<bar> \<le> 2 ^ 53"
  with False have "\<bar>n\<bar> < 2 ^ 53" by simp
  then show ?thesis
    by (intro toDouble_exact [where m = n and j = 0]) (simp_all)
qed

subsection \<open>On-Balance Volume\<close>

text \<open>
  The loop invariant of \<open>calculateOBV\<close>: entered with \<open>i\<close> values pushed, the loop
  returns one value per candle, keeps the values already pushed, and every later value
  is its predecessor with the volume of its candle added or subtracted as doubles, or the
  predecessor itself.
\<close>

lemma calculateOBV_loop_inv:
  "length obv = i \<Longrightarrow> 1 \<le> i \<Longrightarrow> i \<le> length data \<Longrightarrow>
   length (calculateOBV_loop data i obv) = length data \<and>
   (\<forall>j<i. calculateOBV_loop data i obv ! j = obv ! j) \<and>
   (\<forall>j. i \<le> j \<and> j < length data \<longrightarrow>
      calculateOBV_loop data i obv ! j =
        (if close (data ! j) > close (data ! (j - 1)) then
           jsPlus (calculateOBV_loop data i obv ! (j - 1)) (volume (data ! j))
         else if close (data ! j) < close (data ! (j - 1)) then
           jsMinus (calculateOBV_loop data i obv ! (j - 1)) (volume (data ! j))
         else calculateOBV_loop data i obv ! (j - 1)))"
proof (induction data i obv rule: calculateOBV_loop.induct)
  case (1 data i obv)
  show ?case
  proof (cases "i < length data")
    case False
    then have "calculateOBV_loop data i obv = obv"
      by (subst calculateOBV_loop.simps) simp
    with False "1.prems" show ?thesis by auto
  next
    case True
    let ?v = "if close (data ! i) > close (data ! (i - 1)) then
                jsPlus (obv ! (i - 1)) (volume (data ! i))
              else if close (data ! i) < close (data ! (i - 1)) then
                jsMinus (obv ! (i - 1)) (volume (data ! i))
              else obv ! (i - 1)"
    let ?obv = "obv @ [?v]"
    let ?R = "calculateOBV_loop data (i + 1) ?obv"
    have step: "calculateOBV_loop data i obv = ?R"
      using True by (subst calculateOBV_loop.simps) (simp add: Let_def)
    have len: "length ?obv = i + 1" using "1.prems" by simp
    have IH: "length ?R = length data \<and> (\<forall>j<i + 1. ?R ! j = ?obv ! j) \<and>
      (\<forall>j. i + 1 \<le> j \<and> j < length data \<longrightarrow>
        ?R ! j =
          (if close (data ! j) > close (data ! (j - 1)) then
             jsPlus (?R ! (j - 1)) (volume (data ! j))
           else if close (data ! j) < close (data ! (j - 1)) then
             jsMinus (?R ! (j - 1)) (volume (data ! j))
           else ?R ! (j - 1)))"
    proof (cases "close (data ! i) > close (data ! (i - 1))")
      case up: True
      show ?thesis
        using "1.IH"(1)[OF True refl refl refl up] len True up by simp
    next
      case nup: False
      show ?thesis
      proof (cases "close (data ! i) < close (data ! (i - 1))")
        case down: True
        show ?thesis
          using "1.IH"(2)[OF True refl refl refl nup down] len True nup down by simp
      next
        case ndown: False
        show ?thesis
          using "1.IH"(3)[OF True refl refl refl nup ndown] len True nup ndown by simp
      qed
    qed
    from IH have L: "length ?R = length data" by blast
    from IH have P: "\<And>j. j < i + 1 \<Longrightarrow> ?R ! j = ?obv ! j" by blast
    from IH have D: "\<And>j. i + 1 \<le> j \<Longrightarrow> j < length data \<Longrightarrow>
        ?R ! j =
          (if close (data ! j) > close (data ! (j - 1)) then
             jsPlus (?R ! (j - 1)) (volume (data ! j))
           else if close (data ! j) < close (data ! (j - 1)) then
             jsMinus (?R ! (j - 1)) (volume (data ! j))
           else ?R ! (j - 1))" by blast
    have pre: "\<forall>j<i. calculateOBV_loop data i obv ! j = obv ! j"
      using P "1.prems" by (simp add: step nth_append)
    have at_i: "?R ! i = ?v"
      using P[of i] "1.prems" by (simp add: nth_append)
    have at_im: "?R ! (i - 1) = obv ! (i - 1)"
      using P[of "i - 1"] "1.prems" by (simp add: nth_append)
    have here: "?R ! i =
          (if close (data ! i) > close (data ! (i - 1)) then
             jsPlus (?R ! (i - 1)) (volume (data ! i))
           else if close (data ! i) < close (data ! (i - 1)) then
             jsMinus (?R ! (i - 1)) (volume (data ! i))
           else ?R ! (i - 1))"
      unfolding at_im by (rule at_i)
    have rest: "\<forall>j. i \<le> j \<and> j < length data \<longrightarrow>
      ?R ! j =
          (if close (data ! j) > close (data ! (j - 1)) then
             jsPlus (?R ! (j - 1)) (volume (data ! j))
           else if close (data ! j) < close (data ! (j - 1)) then
             jsMinus (?R ! (j - 1)) (volume (data ! j))
           else ?R ! (j - 1))"
    proof (intro allI impI)
      fix j assume j: "i \<le> j \<and> j < length data"
      show "?R ! j =
          (if close (data ! j) > close (data ! (j - 1)) then
             jsPlus (?R ! (j - 1)) (volume (data ! j))
           else if close (data ! j) < close (data ! (j - 1)) then
             jsMinus (?R ! (j - 1)) (volume (data ! j))
           else ?R ! (j - 1))"
      proof (cases "j = i")
        case True then show ?thesis using here by simp
      next
        case False
        with j have "i + 1 \<le> j" "j < length data" by auto
        then show ?thesis by (rule D)
      qed
    qed
    show ?thesis unfolding step using L pre [unfolded step] rest by blast
  qed
qed

lemma calculateOBV_nth:
  assumes "2 \<le> length data"
  shows "length (calculateOBV data) = length data" and "calculateOBV data ! 0 = Num 0"
    and "1 \<le> i \<Longrightarrow> i < length data \<Longrightarrow>
      calculateOBV data ! i =
        (if close (data ! i) > close (data ! (i - 1)) then
           jsPlus (calculateOBV data ! (i - 1)) (volume (data ! i))
         else if close (data ! i) < close (data ! (i - 1)) then
           jsMinus (calculateOBV data ! (i - 1)) (volume (data ! i))
         else calculateOBV data ! (i - 1))"
proof -
  have eq: "calculateOBV data = calculateOBV_loop data 1 [Num 0]"
    using assms by (simp add: calculateOBV_def)
  have inv: "length (calculateOBV_loop data 1 [Num 0]) = length data \<and>
   (\<forall>j<1. calculateOBV_loop data 1 [Num 0] ! j = [Num 0] ! j) \<and>
   (\<forall>j. 1 \<le> j \<and> j < length data \<longrightarrow>
      calculateOBV_loop data 1 [Num 0] ! j =
        (if close (data ! j) > close (data ! (j - 1)) then
           jsPlus (calculateOBV_loop data 1 [Num 0] ! (j - 1)) (volume (data ! j))
         else if close (data ! j) < close (data ! (j - 1)) then
           jsMinus (calculateOBV_loop data 1 [Num 0] ! (j - 1)) (volume (data ! j))
         else calculateOBV_loop data 1 [Num 0] ! (j - 1)))"
    using assms by (intro calculateOBV_loop_inv) simp_all
  from inv show "length (calculateOBV data) = length data" unfolding eq by blast
  from inv have "calculateOBV_loop data 1 [Num 0] ! 0 = [Num 0] ! 0" by blast
  then show "calculateOBV data ! 0 = Num 0" unfolding eq by simp
  assume "1 \<le> i" "i < length data"
  with inv show "calculateOBV data ! i =
        (if close (data ! i) > close (data ! (i - 1)) then
           jsPlus (calculateOBV data ! (i - 1)) (volume (data ! i))
         else if close (data ! i) < close (data ! (i - 1)) then
           jsMinus (calculateOBV data ! (i - 1)) (volume (data ! i))
         else calculateOBV data ! (i - 1))"
    unfolding eq by blast
qed

lemma decimalSample_obv:
  "calculateOBV decimalSample ! 0 = Num 0"
  "calculateOBV decimalSample ! 1 = Num (3602879701896397 / 36028797018963968)"
  "calculateOBV decimalSample ! 2 = Num (5404319552844596 / 18014398509481984)"
proof -
  have len: "2 \<le> length decimalSample" by (simp add: decimalSample_def)
  show o0: "calculateOBV decimalSample ! 0 = Num 0" using len by (rule calculateOBV_nth(2))
  have d1: "toDouble (3602879701896397 / 36028797018963968) =
      Num (3602879701896397 / 36028797018963968)"
    by (rule toDouble_exact [where m = 3602879701896397 and j = "- 55"])
      (simp_all add: powr_minus powr_numeral)
  have "calculateOBV decimalSample ! 1 =
      jsPlus (calculateOBV decimalSample ! 0) (3602879701896397 / 36028797018963968)"
    using calculateOBV_nth(3) [OF len, of 1] by (simp add: decimalSample_def ohlcv_def)
  then show o1: "calculateOBV decimalSample ! 1 = Num (3602879701896397 / 36028797018963968)"
    by (simp add: o0 jsPlus_def d1)
  have "calculateOBV decimalSample ! 2 =
      jsPlus (calculateOBV decimalSample ! 1) (3602879701896397 / 18014398509481984)"
    using calculateOBV_nth(3) [OF len, of 2] by (simp add: decimalSample_def ohlcv_def)
  then show "calculateOBV decimalSample ! 2 = Num (5404319552844596 / 18014398509481984)"
    unfolding o1 jsPlus_def jsnumber.case by (simp only: toDouble_decimal_sum)
qed

text \<open>
  C9, as stated, fails. The closes of the sample rise, and the second and third volumes
  are the doubles of 0.1 and 0.2. The third value of the series is the double nearest to
  their sum, \<open>5404319552844596 / 2^54\<close> (it prints as 0.30000000000000004), and its
  difference from the second value is \<open>7205759403792795 / 2^55\<close>, not the volume
  \<open>7205759403792794 / 2^55\<close> of the third candle.
\<close>

theorem calculateOBV_rounding_counterexample:
  "2 \<le> length decimalSample \<and>
   close (decimalSample ! 2) > close (decimalSample ! 1) \<and>
   volume (decimalSample ! 2) = 7205759403792794 / 36028797018963968 \<and>
   calculateOBV decimalSample ! 1 = Num (3602879701896397 / 36028797018963968) \<and>
   calculateOBV decimalSample ! 2 = Num (5404319552844596 / 18014398509481984) \<and>
   5404319552844596 / 18014398509481984 - 3602879701896397 / 36028797018963968 =
     (7205759403792795 / 36028797018963968 :: real) \<and>
   5404319552844596 / 18014398509481984 - 3602879701896397 / 36028797018963968 \<noteq>
     volume (decimalSample ! 2)"
proof -
  have a: "2 \<le> length decimalSample" by (simp add: decimalSample_def)
  have b: "close (decimalSample ! 2) > close (decimalSample ! 1)"
    and c: "volume (decimalSample ! 2) = 7205759403792794 / 36028797018963968"
    by (simp_all add: decimalSample_def ohlcv_def)
  have d: "5404319552844596 / 18014398509481984 - 3602879701896397 / 36028797018963968 =
     (7205759403792795 / 36028797018963968 :: real)" by simp
  have e: "5404319552844596 / 18014398509481984 - 3602879701896397 / 36028797018963968 \<noteq>
     volume (decimalSample ! 2)" unfolding c d by simp
  from a b c decimalSample_obv(2) decimalSample_obv(3) d e show ?thesis by (intro conjI)
qed

text \<open>
  C9, amended. For an input of two or more candles \<open>calculateOBV\<close> returns one value
  per candle, the first value is 0, and for every \<open>i \<ge> 1\<close> the value \<open>OBV[i]\<close> is
  \<open>OBV[i-1] + volume[i]\<close> when the close rose, \<open>OBV[i-1] - volume[i]\<close> when it fell,
  both computed as doubles, and \<open>OBV[i-1]\<close> itself when the close stayed. So, for
  finite values, the step \<open>OBV[i] - OBV[i-1]\<close> is exactly 0 when the close stayed; it is
  exactly \<open>+volume[i]\<close> or \<open>-volume[i]\<close> when the exact sum or difference is a double;
  and otherwise it differs from \<open>+volume[i]\<close> or \<open>-volume[i]\<close> by the rounding of one
  addition, at most \<open>2^-53\<close> times the magnitude of the exact result (at most
  \<open>2^-1075\<close> in the subnormal range).
\<close>

theorem calculateOBV_steps:
  "2 \<le> length data \<Longrightarrow>
   length (calculateOBV data) = length data \<and> calculateOBV data ! 0 = Num 0 \<and>
   (\<forall>i. 1 \<le> i \<and> i < length data \<longrightarrow>
      calculateOBV data ! i =
        (if close (data ! i) > close (data ! (i - 1)) then
           jsPlus (calculateOBV data ! (i - 1)) (volume (data ! i))
         else if close (data ! i) < close (data ! (i - 1)) then
           jsMinus (calculateOBV data ! (i - 1)) (volume (data ! i))
         else calculateOBV data ! (i - 1)) \<and>
      (\<forall>a b. calculateOBV data ! (i - 1) = Num a \<and> calculateOBV data ! i = Num b \<longrightarrow>
         (close (data ! i) > close (data ! (i - 1)) \<longrightarrow>
            \<bar>(b - a) - volume (data ! i)\<bar>
              \<le> max (\<bar>a + volume (data ! i)\<bar> / 2 ^ 53) (2 powr - 1075) \<and>
            (toDouble (a + volume (data ! i)) = Num (a + volume (data ! i)) \<longrightarrow>
               b - a = volume (data ! i))) \<and>
         (close (data ! i) < close (data ! (i - 1)) \<longrightarrow>
            \<bar>(b - a) + volume (data ! i)\<bar>
              \<le> max (\<bar>a - volume (data ! i)\<bar> / 2 ^ 53) (2 powr - 1075) \<and>
            (toDouble (a - volume (data ! i)) = Num (a - volume (data ! i)) \<longrightarrow>
               b - a = - volume (data ! i))) \<and>
         (close (data ! i) = close (data ! (i - 1)) \<longrightarrow> b - a = 0)))"
proof -
  assume len: "2 \<le> length data"
  note n = calculateOBV_nth [OF len]
  have step: "(\<forall>a b. calculateOBV data ! (i - 1) = Num a \<and> calculateOBV data ! i = Num b \<longrightarrow>
         (close (data ! i) > close (data ! (i - 1)) \<longrightarrow>
            \<bar>(b - a) - volume (data ! i)\<bar>
              \<le> max (\<bar>a + volume (data ! i)\<bar> / 2 ^ 53) (2 powr - 1075) \<and>
            (toDouble (a + volume (data ! i)) = Num (a + volume (data ! i)) \<longrightarrow>
               b - a = volume (data ! i))) \<and>
         (close (data ! i) < close (data ! (i - 1)) \<longrightarrow>
            \<bar>(b - a) + volume (data ! i)\<bar>
              \<le> max (\<bar>a - volume (data ! i)\<bar> / 2 ^ 53) (2 powr - 1075) \<and>
            (toDouble (a - volume (data ! i)) = Num (a - volume (data ! i)) \<longrightarrow>
               b - a = - volume (data ! i))) \<and>
         (close (data ! i) = close (data ! (i - 1)) \<longrightarrow> b - a = 0))"
    if i: "1 \<le> i" "i < length data" for i
  proof (intro allI impI, elim conjE)
    fix a b
    assume a: "calculateOBV data ! (i - 1) = Num a" and b: "calculateOBV data ! i = Num b"
    let ?v = "volume (data ! i)"
    have up: "\<bar>(b - a) - ?v\<bar> \<le> max (\<bar>a + ?v\<bar> / 2 ^ 53) (2 powr - 1075) \<and>
        (toDouble (a + ?v) = Num (a + ?v) \<longrightarrow> b - a = ?v)"
      if "close (data ! i) > close (data ! (i - 1))"
    proof -
      from n(3) [OF i] that a b have t: "toDouble (a + ?v) = Num b" by (simp add: jsPlus_def)
      from toDouble_error [OF t] have "\<bar>b - (a + ?v)\<bar> \<le> max (\<bar>a + ?v\<bar> / 2 ^ 53) (2 powr - 1075)" .
      moreover have "b - (a + ?v) = (b - a) - ?v" by simp
      ultimately have "\<bar>(b - a) - ?v\<bar> \<le> max (\<bar>a + ?v\<bar> / 2 ^ 53) (2 powr - 1075)"
        by (simp only:)
      moreover have "b - a = ?v" if "toDouble (a + ?v) = Num (a + ?v)"
        using t that by simp
      ultimately show ?thesis by blast
    qed
    have down: "\<bar>(b - a) + ?v\<bar> \<le> max (\<bar>a - ?v\<bar> / 2 ^ 53) (2 powr - 1075) \<and>
        (toDouble (a - ?v) = Num (a - ?v) \<longrightarrow> b - a = - ?v)"
      if "close (data ! i) < close (data ! (i - 1))"
    proof -
      from n(3) [OF i] that a b have t: "toDouble (a - ?v) = Num b" by (simp add: jsMinus_def)
      from toDouble_error [OF t] have "\<bar>b - (a - ?v)\<bar> \<le> max (\<bar>a - ?v\<bar> / 2 ^ 53) (2 powr - 1075)" .
      moreover have "b - (a - ?v) = (b - a) + ?v" by simp
      ultimately have "\<bar>(b - a) + ?v\<bar> \<le> max (\<bar>a - ?v\<bar> / 2 ^ 53) (2 powr - 1075)"
        by (simp only:)
      moreover have "b - a = - ?v" if "toDouble (a - ?v) = Num (a - ?v)"
        using t that by simp
      ultimately show ?thesis by blast
    qed
    have same: "b - a = 0" if "close (data ! i) = close (data ! (i - 1))"
      using n(3) [OF i] that a b by simp
    from up down same
    show "(close (data ! i) > close (data ! (i - 1)) \<longrightarrow>
            \<bar>(b - a) - ?v\<bar> \<le> max (\<bar>a + ?v\<bar> / 2 ^ 53) (2 powr - 1075) \<and>
            (toDouble (a + ?v) = Num (a + ?v) \<longrightarrow> b - a = ?v)) \<and>
         (close (data ! i) < close (data ! (i - 1)) \<longrightarrow>
            \<bar>(b - a) + ?v\<bar> \<le> max (\<bar>a - ?v\<bar> / 2 ^ 53) (2 powr - 1075) \<and>
            (toDouble (a - ?v) = Num (a - ?v) \<longrightarrow> b - a = - ?v)) \<and>
         (close (data ! i) = close (data ! (i - 1)) \<longrightarrow> b - a = 0)"
      by blast
  qed
  have "1 \<le> i \<and> i < length data \<longrightarrow>
      calculateOBV data ! i =
        (if close (data ! i) > close (data ! (i - 1)) then
           jsPlus (calculateOBV data ! (i - 1)) (volume (data ! i))
         else if close (data ! i) < close (data ! (i - 1)) then
           jsMinus (calculateOBV data ! (i - 1)) (volume (data ! i))
         else calculateOBV data ! (i - 1)) \<and>
      (\<forall>a b. calculateOBV data ! (i - 1) = Num a \<and> calculateOBV data ! i = Num b \<longrightarrow>
         (close (data ! i) > close (data ! (i - 1)) \<longrightarrow>
            \<bar>(b - a) - volume (data ! i)\<bar>
              \<le> max (\<bar>a + volume (data ! i)\<bar> / 2 ^ 53) (2 powr - 1075) \<and>
            (toDouble (a + volume (data ! i)) = Num (a + volume (data ! i)) \<longrightarrow>
               b - a = volume (data ! i))) \<and>
         (close (data ! i) < close (data ! (i - 1)) \<longrightarrow>
            \<bar>(b - a) + volume (data ! i)\<bar>
              \<le> max (\<bar>a - volume (data ! i)\<bar> / 2 ^ 53) (2 powr - 1075) \<and>
            (toDouble (a - volume (data ! i)) = Num (a - volume (data ! i)) \<longrightarrow>
               b - a = - volume (data ! i))) \<and>
         (close (data ! i) = close (data ! (i - 1)) \<longrightarrow> b - a = 0))" for i
  proof (rule impI)
    assume "1 \<le> i \<and> i < length data"
    then have i: "1 \<le> i" "i < length data" by simp_all
    from n(3) [OF i] step [OF i]
    show "calculateOBV data ! i =
        (if close (data ! i) > close (data ! (i - 1)) then
           jsPlus (calculateOBV data ! (i - 1)) (volume (data ! i))
         else if close (data ! i) < close (data ! (i - 1)) then
           jsMinus (calculateOBV data ! (i - 1)) (volume (data ! i))
         else calculateOBV data ! (i - 1)) \<and>
      (\<forall>a b. calculateOBV data ! (i - 1) = Num a \<and> calculateOBV data ! i = Num b \<longrightarrow>
         (close (data ! i) > close (data ! (i - 1)) \<longrightarrow>
            \<bar>(b - a) - volume (data ! i)\<bar>
              \<le> max (\<bar>a + volume (data ! i)\<bar> / 2 ^ 53) (2 powr - 1075) \<and>
            (toDouble (a + volume (data ! i)) = Num (a + volume (data ! i)) \<longrightarrow>
               b - a = volume (data ! i))) \<and>
         (close (data ! i) < close (data ! (i - 1)) \<longrightarrow>
            \<bar>(b - a) + volume (data ! i)\<bar>
              \<le> max (\<bar>a - volume (data ! i)\<bar> / 2 ^ 53) (2 powr - 1075) \<and>
            (toDouble (a - volume (data ! i)) = Num (a - volume (data ! i)) \<longrightarrow>
               b - a = - volume (data ! i))) \<and>
         (close (data ! i) = close (data ! (i - 1)) \<longrightarrow> b - a = 0))"
      by (rule conjI)
  qed
  with n(1) n(2) show ?thesis by (intro conjI allI)
qed

theorem calculateOBV_steps_witness:
  "2 \<le> length obvSample \<and>
   length (calculateOBV obvSample) = 3 \<and> calculateOBV obvSample ! 0 = Num 0 \<and>
   calculateOBV obvSample ! 1 = Num 12 \<and> calculateOBV obvSample ! 2 = Num 5"
proof -
  have h: "2 \<le> length obvSample" and len: "length obvSample = 3"
    by (simp_all add: obvSample_def)
  have up: "close (obvSample ! 1) > close (obvSample ! (1 - 1))"
    and v1: "volume (obvSample ! 1) = 12"
    and nup: "\<not> close (obvSample ! 2) > close (obvSample ! (2 - 1))"
    and down: "close (obvSample ! 2) < close (obvSample ! (2 - 1))"
    and v2: "volume (obvSample ! 2) = 7"
    by (simp_all add: obvSample_def ohlcv_def)
  note t = calculateOBV_steps [OF h]
  from t have a: "length (calculateOBV obvSample) = length obvSample" by (rule conjunct1)
  from t have b: "calculateOBV obvSample ! 0 = Num 0" by (rule conjunct2 [THEN conjunct1])
  note each = t [THEN conjunct2, THEN conjunct2, THEN spec, THEN mp, THEN conjunct1]
  have i1: "1 \<le> (1 :: nat) \<and> 1 < length obvSample"
    and i2: "1 \<le> (2 :: nat) \<and> 2 < length obvSample" by (simp_all add: len)
  have twelve: "toDouble (0 + 12) = Num 12" using toDouble_int [of 12] by simp
  have five: "toDouble (12 - 7) = Num 5" using toDouble_int [of 5] by simp
  have "calculateOBV obvSample ! 1 =
      jsPlus (calculateOBV obvSample ! (1 - 1)) (volume (obvSample ! 1))"
    using each [OF i1] up by (simp only: if_True)
  also have "calculateOBV obvSample ! (1 - 1) = Num 0" using b by simp
  finally have d1: "calculateOBV obvSample ! 1 = Num 12"
    unfolding v1 jsPlus_def jsnumber.case by (simp only: twelve)
  have "calculateOBV obvSample ! 2 =
      jsMinus (calculateOBV obvSample ! (2 - 1)) (volume (obvSample ! 2))"
    using each [OF i2] nup down by (simp only: if_True if_False)
  also have "calculateOBV obvSample ! (2 - 1) = Num 12" using d1 by simp
  finally have d2: "calculateOBV obvSample ! 2 = Num 5"
    unfolding v2 jsMinus_def jsnumber.case by (simp only: five)
  from h a b d1 d2 show ?thesis by (simp add: len)
qed

subsection \<open>Normalisation\<close>

text \<open>The accumulators of \<open>normalizeData\<close> are the minimum and maximum of the batch.\<close>

lemma fold_min_Min:
  "fold (\<lambda>candle m. min m (f candle)) rest (f c0) = Min (f ` set (c0 # rest))"
proof -
  have "(\<lambda>candle m. min m (f candle)) = min \<circ> f"
    by (auto simp: fun_eq_iff min.commute)
  then have "fold (\<lambda>candle m. min m (f candle)) rest (f c0) = fold min (map f rest) (f c0)"
    by (simp add: fold_map)
  also have "\<dots> = Min (set (f c0 # map f rest))"
    by (rule Min.set_eq_fold [symmetric])
  finally show ?thesis by simp
qed

lemma fold_max_Max:
  "fold (\<lambda>candle m. max m (f candle)) rest (f c0) = Max (f ` set (c0 # rest))"
proof -
  have "(\<lambda>candle m. max m (f candle)) = max \<circ> f"
    by (auto simp: fun_eq_iff max.commute)
  then have "fold (\<lambda>candle m. max m (f candle)) rest (f c0) = fold max (map f rest) (f c0)"
    by (simp add: fold_map)
  also have "\<dots> = Max (set (f c0 # map f rest))"
    by (rule Max.set_eq_fold [symmetric])
  finally show ?thesis by simp
qed

lemma normalizeData_map:
  "data \<noteq> [] \<Longrightarrow>
   normalizeData data =
     map (\<lambda>candle. candle
           \<lparr> normalizedOpen := Some (normalizedValue open_c data candle),
             normalizedHigh := Some (normalizedValue high data candle),
             normalizedLow := Some (normalizedValue low data candle),
             normalizedClose := Some (normalizedValue close data candle),
             normalizedVolume := Some (normalizedValue volume data candle) \<rparr>) data"
proof (cases data)
  case Nil
  moreover assume "data \<noteq> []"
  ultimately show ?thesis by simp
next
  case (Cons c0 rest)
  show ?thesis
    unfolding Cons normalizeData.simps Let_def fold_min_Min fold_max_Max normalizedValue_def
    by (rule refl)
qed

lemma normalizedValue_bounds:
  assumes "c \<in> set data"
  shows "0 \<le> normalizedValue f data c" and "normalizedValue f data c \<le> 1"
    and "Min (f ` set data) = Max (f ` set data) \<Longrightarrow> normalizedValue f data c = 0"
    and "f c = Max (f ` set data) \<Longrightarrow> Min (f ` set data) \<noteq> Max (f ` set data) \<Longrightarrow>
         normalizedValue f data c = 1"
proof -
  let ?mn = "Min (f ` set data)" and ?mx = "Max (f ` set data)"
  have fin: "finite (f ` set data)" by simp
  have mem: "f c \<in> f ` set data" using assms by simp
  have lo: "?mn \<le> f c" using fin mem by (rule Min_le)
  have hi: "f c \<le> ?mx" using fin mem by (rule Max_ge)
  show "0 \<le> normalizedValue f data c"
    using lo hi by (simp add: normalizedValue_def orOne_def)
  show "normalizedValue f data c \<le> 1"
    using lo hi by (simp add: normalizedValue_def orOne_def)
  show "normalizedValue f data c = 0" if "?mn = ?mx"
    using lo hi that by (simp add: normalizedValue_def orOne_def)
  show "normalizedValue f data c = 1" if "f c = ?mx" "?mn \<noteq> ?mx"
    using that by (simp add: normalizedValue_def orOne_def)
qed

text \<open>
  C8. For a non-empty input, every normalised value that \<open>normalizeData\<close> stores
  (open, high, low, close, volume) lies in the interval from 0 to 1; it is 0 for every
  candle when the field's minimum equals its maximum, and otherwise it is 1 for a candle
  that attains the maximum; all other members of the candle are as in the input.
\<close>

theorem normalizeData_range:
  "data \<noteq> [] \<Longrightarrow> i < length data \<Longrightarrow>
   (f, g) \<in> set [(open_c, normalizedOpen), (high, normalizedHigh), (low, normalizedLow),
                (close, normalizedClose), (volume, normalizedVolume)] \<Longrightarrow>
   length (normalizeData data) = length data \<and>
   (\<exists>v. g (normalizeData data ! i) = Some v \<and> 0 \<le> v \<and> v \<le> 1 \<and>
        (Min (f ` set data) = Max (f ` set data) \<longrightarrow> v = 0) \<and>
        (f (data ! i) = Max (f ` set data) \<and> Min (f ` set data) \<noteq> Max (f ` set data) \<longrightarrow> v = 1)) \<and>
   (normalizeData data ! i)
      \<lparr> normalizedOpen := normalizedOpen (data ! i), normalizedHigh := normalizedHigh (data ! i),
        normalizedLow := normalizedLow (data ! i), normalizedClose := normalizedClose (data ! i),
        normalizedVolume := normalizedVolume (data ! i) \<rparr> = data ! i"
proof -
  assume ne: "data \<noteq> []" and i: "i < length data"
    and fg: "(f, g) \<in> set [(open_c, normalizedOpen), (high, normalizedHigh), (low, normalizedLow),
                (close, normalizedClose), (volume, normalizedVolume)]"
  have mem: "data ! i \<in> set data" using i by simp
  note m = normalizeData_map [OF ne]
  have len: "length (normalizeData data) = length data" by (simp add: m)
  have nth: "normalizeData data ! i = (data ! i)
           \<lparr> normalizedOpen := Some (normalizedValue open_c data (data ! i)),
             normalizedHigh := Some (normalizedValue high data (data ! i)),
             normalizedLow := Some (normalizedValue low data (data ! i)),
             normalizedClose := Some (normalizedValue close data (data ! i)),
             normalizedVolume := Some (normalizedValue volume data (data ! i)) \<rparr>"
    using i by (simp add: m)
  have g: "g (normalizeData data ! i) = Some (normalizedValue f data (data ! i))"
    using fg by (auto simp: nth)
  have keep: "(normalizeData data ! i)
      \<lparr> normalizedOpen := normalizedOpen (data ! i), normalizedHigh := normalizedHigh (data ! i),
        normalizedLow := normalizedLow (data ! i), normalizedClose := normalizedClose (data ! i),
        normalizedVolume := normalizedVolume (data ! i) \<rparr> = data ! i"
    by (simp add: nth)
  show ?thesis
    using len g keep normalizedValue_bounds [OF mem, of f] by simp
qed

theorem normalizeData_range_witness:
  "obvSample \<noteq> [] \<and> 1 < length obvSample \<and>
   (close, normalizedClose) \<in> set [(open_c, normalizedOpen), (high, normalizedHigh),
      (low, normalizedLow), (close, normalizedClose), (volume, normalizedVolume)] \<and>
   length (normalizeData obvSample) = 3 \<and>
   normalizedClose (normalizeData obvSample ! 1) = Some 1 \<and>
   timestamp (normalizeData obvSample ! 1) = 3600000 \<and>
   close (normalizeData obvSample ! 1) = 106"
proof -
  have h1: "obvSample \<noteq> []" and h2: "1 < length obvSample"
    by (simp_all add: obvSample_def)
  have h3: "(close, normalizedClose) \<in> set [(open_c, normalizedOpen), (high, normalizedHigh),
      (low, normalizedLow), (close, normalizedClose), (volume, normalizedVolume)]"
    by simp
  have mx: "Max (close ` set obvSample) = 106" and mn: "Min (close ` set obvSample) = 101"
    and c1: "close (obvSample ! 1) = 106" and t1: "timestamp (obvSample ! 1) = 3600000"
    and len: "length obvSample = 3"
    by (simp_all add: obvSample_def ohlcv_def)
  from normalizeData_range [OF h1 h2 h3]
  obtain v where a: "length (normalizeData obvSample) = length obvSample"
    and b: "normalizedClose (normalizeData obvSample ! 1) = Some v"
    and c: "close (obvSample ! 1) = Max (close ` set obvSample) \<and>
            Min (close ` set obvSample) \<noteq> Max (close ` set obvSample) \<longrightarrow> v = 1"
    and d: "(normalizeData obvSample ! 1)
      \<lparr> normalizedOpen := normalizedOpen (obvSample ! 1),
        normalizedHigh := normalizedHigh (obvSample ! 1),
        normalizedLow := normalizedLow (obvSample ! 1),
        normalizedClose := normalizedClose (obvSample ! 1),
        normalizedVolume := normalizedVolume (obvSample ! 1) \<rparr> = obvSample ! 1"
    by blast
  have v: "v = 1" using c mx mn c1 by simp
  have "timestamp ((normalizeData obvSample ! 1)
      \<lparr> normalizedOpen := normalizedOpen (obvSample ! 1),
        normalizedHigh := normalizedHigh (obvSample ! 1),
        normalizedLow := normalizedLow (obvSample ! 1),
        normalizedClose := normalizedClose (obvSample ! 1),
        normalizedVolume := normalizedVolume (obvSample ! 1) \<rparr>) = 3600000"
    unfolding d by (rule t1)
  then have t: "timestamp (normalizeData obvSample ! 1) = 3600000" by simp
  have "close ((normalizeData obvSample ! 1)
      \<lparr> normalizedOpen := normalizedOpen (obvSample ! 1),
        normalizedHigh := normalizedHigh (obvSample ! 1),
        normalizedLow := normalizedLow (obvSample ! 1),
        normalizedClose := normalizedClose (obvSample ! 1),
        normalizedVolume := normalizedVolume (obvSample ! 1) \<rparr>) = 106"
    unfolding d by (rule c1)
  then have cl: "close (normalizeData obvSample ! 1) = 106" by simp
  show ?thesis using h1 h2 h3 a b v t cl len by simp
qed

subsection \<open>Request validation\<close>

text \<open>
  A POST request whose body is \<open>null\<close> or does not parse never reaches the check of
  \<open>data\<close>: destructuring \<open>null\<close> and \<open>JSON.parse\<close> throw inside the \<open>try\<close>, and the
  \<open>catch\<close> answers with status code 500.
\<close>

lemma handlers_internal_error:
  assumes "httpMethod ev = ''POST''"
    and "JSON_parse (event_body ev) = Inl e \<and> msg = message e \<or>
         JSON_parse (event_body ev) = Inr JNull \<and> msg = message TypeError"
  shows "processHandler JSON_parse message processData ev = internalError msg"
    and "indicatorsHandler JSON_parse message computeIndicators ev = internalError msg"
    and "statusCode (internalError msg) = 500"
  using assms by (auto simp: processHandler_def indicatorsHandler_def internalError_def)

text \<open>
  C10, as stated, fails. In a POST request with the body \<open>null\<close> the \<open>data\<close>
  parameter is missing, and both handlers answer with status code 500 and the body
  "Internal server error", not with the validation error; so they do for an empty body.
\<close>

theorem handlers_null_body_counterexample:
  "httpMethod nullBodyRequest = ''POST'' \<and>
   sampleParse (event_body nullBodyRequest) = Inr JNull \<and>
   getMember JNull ''data'' = None \<and>
   statusCode (processHandler sampleParse errorName passData nullBodyRequest) = 500 \<and>
   statusCode (indicatorsHandler sampleParse errorName passIndicators nullBodyRequest) = 500 \<and>
   processHandler sampleParse errorName passData nullBodyRequest \<noteq> validationError \<and>
   indicatorsHandler sampleParse errorName passIndicators nullBodyRequest \<noteq> validationError \<and>
   sampleParse (event_body emptyBodyRequest) = Inl SyntaxError \<and>
   statusCode (processHandler sampleParse errorName passData emptyBodyRequest) = 500 \<and>
   statusCode (indicatorsHandler sampleParse errorName passIndicators emptyBodyRequest) = 500"
proof -
  have post: "httpMethod nullBodyRequest = ''POST''" "httpMethod emptyBodyRequest = ''POST''"
    by (simp_all add: nullBodyRequest_def emptyBodyRequest_def)
  have parse: "sampleParse (event_body nullBodyRequest) = Inr JNull"
    "sampleParse (event_body emptyBodyRequest) = Inl SyntaxError"
    by (simp_all add: nullBodyRequest_def emptyBodyRequest_def sampleParse_def)
  have missing: "getMember JNull ''data'' = None" by (simp add: getMember_def)
  have p: "processHandler sampleParse errorName passData nullBodyRequest =
      internalError (errorName TypeError)"
    using post(1) parse(1) by (simp add: processHandler_def)
  have q: "indicatorsHandler sampleParse errorName passIndicators nullBodyRequest =
      internalError (errorName TypeError)"
    using post(1) parse(1) by (simp add: indicatorsHandler_def)
  have p': "processHandler sampleParse errorName passData emptyBodyRequest =
      internalError (errorName SyntaxError)"
    using post(2) parse(2) by (simp add: processHandler_def)
  have q': "indicatorsHandler sampleParse errorName passIndicators emptyBodyRequest =
      internalError (errorName SyntaxError)"
    using post(2) parse(2) by (simp add: indicatorsHandler_def)
  have st: "statusCode (internalError msg) = 500" for msg by (simp add: internalError_def)
  have ne: "internalError msg \<noteq> validationError" for msg
  proof
    assume "internalError msg = validationError"
    then have "statusCode (internalError msg) = statusCode validationError" by simp
    then show False by (simp add: internalError_def validationError_def)
  qed
  show ?thesis
    unfolding p q p' q' using post(1) parse missing st ne by simp
qed

text \<open>
  C10, amended. For a POST request whose body parses to a JSON value other than
  \<open>null\<close>, when the \<open>data\<close> member is missing or is not an array, both handlers return
  the validation error: status code 400 and a body that names the expected shape (an
  array of OHLCV data objects). The result does not depend on the processing code, which
  is not reached.
\<close>

theorem handlers_validation:
  "httpMethod ev = ''POST'' \<Longrightarrow> JSON_parse (event_body ev) = Inr requestBody \<Longrightarrow>
   requestBody \<noteq> JNull \<Longrightarrow>
   getMember requestBody ''data'' = None \<or> \<not> isArray (getMember requestBody ''data'') \<Longrightarrow>
   processHandler JSON_parse message processData ev = validationError \<and>
   indicatorsHandler JSON_parse message computeIndicators ev = validationError \<and>
   statusCode validationError = 400 \<and>
   response_body validationError =
     JObj [(''error'', JStr ''Missing or invalid data parameter''),
           (''required'', JStr ''Array of OHLCV data objects'')]"
proof -
  assume post: "httpMethod ev = ''POST''"
    and parse: "JSON_parse (event_body ev) = Inr requestBody"
    and nonnull: "requestBody \<noteq> JNull"
    and bad: "getMember requestBody ''data'' = None \<or> \<not> isArray (getMember requestBody ''data'')"
  from bad have na: "\<not> isArray (getMember requestBody ''data'')"
    by (auto simp: isArray_def)
  have p: "processHandler JSON_parse message processData ev = validationError"
    using post parse nonnull na by (simp add: processHandler_def Let_def)
  have q: "indicatorsHandler JSON_parse message computeIndicators ev = validationError"
    using post parse nonnull na by (simp add: indicatorsHandler_def Let_def)
  show ?thesis using p q by (simp add: validationError_def)
qed

theorem handlers_validation_witness:
  "httpMethod \<lparr> httpMethod = ''POST'', event_body = ''{}'' \<rparr> = ''POST'' \<and>
   JObj [(''options'', JObj [])] \<noteq> JNull \<and>
   getMember (JObj [(''options'', JObj [])]) ''data'' = None \<and>
   processHandler (\<lambda>s. Inr (JObj [(''options'', JObj [])])) (\<lambda>e. []) (\<lambda>xs opts. Inr (JArr xs))
     \<lparr> httpMethod = ''POST'', event_body = ''{}'' \<rparr> = validationError \<and>
   indicatorsHandler (\<lambda>s. Inr (JObj [(''options'', JObj [])])) (\<lambda>e. [])
     (\<lambda>xs inds pars. Inr (JArr xs)) \<lparr> httpMethod = ''POST'', event_body = ''{}'' \<rparr> = validationError \<and>
   statusCode validationError = 400"
proof -
  let ?ev = "\<lparr> httpMethod = ''POST'', event_body = ''{}'' \<rparr>"
  let ?parse = "\<lambda>s::string. (Inr (JObj [(''options'', JObj [])]) :: error + json)"
  have h1: "httpMethod ?ev = ''POST''" by simp
  have h2: "?parse (event_body ?ev) = Inr (JObj [(''options'', JObj [])])" by simp
  have h3: "JObj [(''options'', JObj [])] \<noteq> JNull" by simp
  have h4: "getMember (JObj [(''options'', JObj [])]) ''data'' = None" by (simp add: getMember_def)
  then have h5: "getMember (JObj [(''options'', JObj [])]) ''data'' = None \<or>
      \<not> isArray (getMember (JObj [(''options'', JObj [])]) ''data'')" by simp
  show ?thesis
    using handlers_validation [of ?ev ?parse, OF h1 h2 h3 h5, of "\<lambda>e. []" "\<lambda>xs opts. Inr (JArr xs)"
        "\<lambda>xs inds pars. Inr (JArr xs)"] h3 h4
    by simp
qed

subsection \<open>Timeframe inference\<close>

lemma count_list_snoc:
  "count_list (ps @ [x]) d = (if x = d then count_list ps d + 1 else count_list ps d)"
  by (induction ps) auto

lemma modeInv_step:
  assumes "modeInv d0 ps st"
  shows "modeInv d0 (ps @ [x]) (countDiff x st)"
proof -
  obtain counts maxCount mcd where st: "st = (counts, maxCount, mcd)"
    by (cases st) auto
  from assms have c: "\<And>d. counts d = (if count_list ps d = 0 then None else Some (count_list ps d))"
    and m: "\<And>d. count_list ps d \<le> maxCount"
    and b: "if ps = [] then maxCount = 0 \<and> mcd = d0
            else count_list ps mcd = maxCount \<and> mcd \<in> set ps"
    unfolding modeInv_def st by auto
  have n: "(case counts x of None \<Rightarrow> 0 | Some k \<Rightarrow> k) = count_list ps x"
    by (simp add: c)
  show ?thesis
  proof (cases "count_list ps x + 1 > maxCount")
    case True
    then have "countDiff x st = (counts(x \<mapsto> count_list ps x + 1), count_list ps x + 1, x)"
      unfolding countDiff_def st by (simp add: n Let_def)
    moreover have "\<And>d. count_list ps d \<le> count_list ps x + 1"
      using m True by (meson le_trans less_imp_le_nat)
    ultimately show ?thesis
      unfolding modeInv_def by (auto simp: count_list_snoc c)
  next
    case False
    then have eq: "countDiff x st = (counts(x \<mapsto> count_list ps x + 1), maxCount, mcd)"
      unfolding countDiff_def st by (simp add: n Let_def)
    from False have le: "count_list ps x + 1 \<le> maxCount" by simp
    then have ne: "ps \<noteq> []" using m b by (cases ps) auto
    with b have bm: "count_list ps mcd = maxCount" "mcd \<in> set ps" by auto
    have "x \<noteq> mcd" using le bm by auto
    then show ?thesis
      unfolding modeInv_def eq using m le bm by (auto simp: count_list_snoc c)
  qed
qed

lemma modeInv_fold:
  "modeInv d0 ps st \<Longrightarrow> modeInv d0 (ps @ xs) (fold countDiff xs st)"
proof (induction xs arbitrary: ps st)
  case Nil
  then show ?case by simp
next
  case (Cons x xs)
  from modeInv_step [OF Cons.prems] have "modeInv d0 (ps @ [x]) (countDiff x st)" .
  from Cons.IH [OF this] show ?case by simp
qed

lemma modeInv_init: "modeInv d0 [] (Map.empty, 0, d0)"
  by (simp add: modeInv_def)

lemma differences_length: "length (differences data) = min (length data) 10 - 1"
  by (simp add: differences_def)

lemma differences_nth:
  "i < min (length data) 10 - 1 \<Longrightarrow>
   differences data ! i = timestamp (data ! (i + 1)) - timestamp (data ! i)"
proof -
  assume "i < min (length data) 10 - 1"
  then have "Suc 0 + i < min (length data) 10" by arith
  then have "[Suc 0 ..< min (length data) 10] ! i = Suc 0 + i" by (rule nth_upt)
  then show ?thesis
    using \<open>i < min (length data) 10 - 1\<close> by (simp add: differences_def)
qed

lemma getTimeframeFromData_Some:
  assumes "2 \<le> length data"
  shows "\<exists>tf. getTimeframeFromData data = Some tf \<and> tf \<in> set (differences data) \<and>
           (\<forall>d. count_list (differences data) d \<le> count_list (differences data) tf)"
proof -
  obtain counts maxCount mcd where
    f: "fold countDiff (differences data) (Map.empty, 0, differences data ! 0) = (counts, maxCount, mcd)"
    by (cases "fold countDiff (differences data) (Map.empty, 0, differences data ! 0)") auto
  have ne: "differences data \<noteq> []"
    using assms differences_length [of data] by (cases "differences data") auto
  from modeInv_fold [OF modeInv_init, of "differences data ! 0" "differences data"]
  have "modeInv (differences data ! 0) (differences data) (counts, maxCount, mcd)"
    by (simp add: f)
  with ne have "mcd \<in> set (differences data)"
    and "\<And>d. count_list (differences data) d \<le> count_list (differences data) mcd"
    unfolding modeInv_def by auto
  moreover have "getTimeframeFromData data = Some mcd"
    using assms by (simp add: getTimeframeFromData_def f)
  ultimately show ?thesis by blast
qed

lemma getTimeframeFromData_None: "length data < 2 \<Longrightarrow> getTimeframeFromData data = None"
  by (simp add: getTimeframeFromData_def)

lemma short_passthrough:
  assumes "length data < 2"
  shows "alignTimestamps isoString data = Inr data"
    and "handleMissingValues isoString data = Some (Inr data)"
proof -
  from assms consider "data = []" | c where "data = [c]"
    by (cases data) (auto simp: length_Suc_conv)
  then show "alignTimestamps isoString data = Inr data"
    by cases (simp_all add: alignTimestamps_def getTimeframeFromData_def undetectable_def)
  from assms consider "data = []" | c where "data = [c]"
    by (cases data) (auto simp: length_Suc_conv)
  then show "handleMissingValues isoString data = Some (Inr data)"
    by cases (simp_all add: handleMissingValues_def getTimeframeFromData_def undetectable_def)
qed

text \<open>
  C6. For two or more candles the inferred timeframe is a most frequent value among the
  differences of consecutive timestamps of the first ten candles (at most nine
  differences); for fewer than two candles the result is \<open>null\<close>, which is
  undetectable, and \<open>alignTimestamps\<close> and \<open>handleMissingValues\<close> return the input
  sequence as it is.
\<close>

theorem getTimeframeFromData_mode:
  "(2 \<le> length data \<longrightarrow>
      (\<exists>tf. getTimeframeFromData data = Some tf \<and> tf \<in> set (differences data) \<and>
            (\<forall>d. count_list (differences data) d \<le> count_list (differences data) tf)) \<and>
      length (differences data) = min (length data) 10 - 1 \<and>
      (\<forall>i < min (length data) 10 - 1.
          differences data ! i = timestamp (data ! (i + 1)) - timestamp (data ! i))) \<and>
   (length data < 2 \<longrightarrow>
      getTimeframeFromData data = None \<and> undetectable (getTimeframeFromData data) \<and>
      alignTimestamps isoString data = Inr data \<and>
      handleMissingValues isoString data = Some (Inr data))"
  using getTimeframeFromData_Some [of data] differences_length [of data]
    differences_nth [of _ data] getTimeframeFromData_None [of data]
    short_passthrough [of data isoString]
  by (simp add: undetectable_def)

theorem getTimeframeFromData_mode_witness:
  "2 \<le> length obvSample \<and> getTimeframeFromData obvSample = Some 3600000 \<and>
   length [ohlcv 0 100 105 98 102 10] < 2 \<and>
   getTimeframeFromData [ohlcv 0 100 105 98 102 10] = None \<and>
   alignTimestamps (\<lambda>t. []) [ohlcv 0 100 105 98 102 10] = Inr [ohlcv 0 100 105 98 102 10] \<and>
   handleMissingValues (\<lambda>t. []) [ohlcv 0 100 105 98 102 10] =
     Some (Inr [ohlcv 0 100 105 98 102 10])"
proof -
  have h: "2 \<le> length obvSample" by (simp add: obvSample_def)
  have d: "differences obvSample = [3600000, 3600000]"
    by (simp add: differences_def obvSample_def ohlcv_def upt_rec)
  from getTimeframeFromData_mode [of obvSample "\<lambda>t. []"] h
  obtain tf where "getTimeframeFromData obvSample = Some tf" "tf \<in> set (differences obvSample)"
    by blast
  then have a: "getTimeframeFromData obvSample = Some 3600000" by (simp add: d)
  have s: "length [ohlcv 0 100 105 98 102 10] < 2" by simp
  from getTimeframeFromData_mode [of "[ohlcv 0 100 105 98 102 10]" "\<lambda>t. []"] s
  have b: "getTimeframeFromData [ohlcv 0 100 105 98 102 10] = None"
    "alignTimestamps (\<lambda>t. []) [ohlcv 0 100 105 98 102 10] = Inr [ohlcv 0 100 105 98 102 10]"
    "handleMissingValues (\<lambda>t. []) [ohlcv 0 100 105 98 102 10] =
       Some (Inr [ohlcv 0 100 105 98 102 10])"
    by blast+
  show ?thesis using h a s b by simp
qed

subsection \<open>Outlier correction\<close>











subsection \<open>Timestamp alignment\<close>

text \<open>Evaluating the timeframe inference on a concrete sequence.\<close>

lemmas timeframe_eval =
  getTimeframeFromData_def differences_def countDiff_def Let_def upt_rec undetectable_def

lemma alignSample_once: "alignTimestamps plainDate alignSample = Inr alignSampleOnce"
proof -
  have tf: "getTimeframeFromData alignSample = Some 180000"
    by (simp add: timeframe_eval alignSample_def ohlcv_def)
  show ?thesis
    unfolding alignTimestamps_def tf
    by (simp add: undetectable_def alignSample_def alignSampleOnce_def ohlcv_def alignCandle_def
        toISOString_def timeValue_def plainDate_def)
qed

lemma alignSample_twice: "alignTimestamps plainDate alignSampleOnce = Inr alignSampleTwice"
proof -
  have tf: "getTimeframeFromData alignSampleOnce = Some 360000"
    by (simp add: timeframe_eval alignSampleOnce_def ohlcv_def)
  show ?thesis
    unfolding alignTimestamps_def tf
    by (simp add: undetectable_def alignSampleOnce_def alignSampleTwice_def ohlcv_def
        alignCandle_def toISOString_def timeValue_def plainDate_def)
qed

text \<open>
  C2, as stated, fails. The sample has the differences 5, 7, 3 and 3 minutes, so the
  first alignment snaps to multiples of 3 minutes; the aligned sequence has the
  differences 6, 6, 3 and 3 minutes, so the second alignment infers 6 minutes and moves
  the fourth candle from minute 15 to minute 12. The second alignment also replaces the
  \<open>originalTimestamp\<close> that the first one recorded.
\<close>

theorem alignTimestamps_idempotence_counterexample:
  "alignTimestamps plainDate alignSample = Inr alignSampleOnce \<and>
   alignTimestamps plainDate alignSampleOnce = Inr alignSampleTwice \<and>
   map timestamp alignSampleOnce = [0, 360000, 720000, 900000, 1080000] \<and>
   map timestamp alignSampleTwice = [0, 360000, 720000, 720000, 1080000] \<and>
   originalTimestamp (alignSampleOnce ! 0) = Some 120000 \<and>
   originalTimestamp (alignSampleTwice ! 0) = None \<and>
   alignSampleTwice \<noteq> alignSampleOnce"
proof -
  have a: "map timestamp alignSampleOnce = [0, 360000, 720000, 900000, 1080000]"
    by (simp add: alignSampleOnce_def ohlcv_def)
  have b: "map timestamp alignSampleTwice = [0, 360000, 720000, 720000, 1080000]"
    by (simp add: alignSampleTwice_def ohlcv_def)
  have c: "originalTimestamp (alignSampleOnce ! 0) = Some 120000"
    "originalTimestamp (alignSampleTwice ! 0) = None"
    by (simp_all add: alignSampleOnce_def alignSampleTwice_def ohlcv_def)
  from a b have "map timestamp alignSampleTwice \<noteq> map timestamp alignSampleOnce" by simp
  then have d: "alignSampleTwice \<noteq> alignSampleOnce" by auto
  show ?thesis using alignSample_once alignSample_twice a b c d by simp
qed

lemma mapE_Inr_all2:
  "mapE f xs = Inr ys \<Longrightarrow> list_all2 (\<lambda>x y. f x = Inr y) xs ys"
proof (induction xs arbitrary: ys)
  case Nil
  then show ?case by simp
next
  case (Cons x xs)
  then show ?case by (auto split: sum.splits)
qed

lemma mapE_map:
  "(\<And>x. x \<in> set xs \<Longrightarrow> f x = Inr (g x)) \<Longrightarrow> mapE f xs = Inr (map g xs)"
  by (induction xs) simp_all

lemma alignCandle_again:
  assumes "tf \<noteq> 0" "alignCandle isoString tf c = Inr c'"
  shows "alignCandle isoString tf c' = Inr (c' \<lparr> originalTimestamp := None \<rparr>)"
proof -
  let ?a = "(timestamp c div tf) * tf"
  from assms(2) obtain s where s: "toISOString isoString ?a = Inr s"
    and c': "c' = c \<lparr> timestamp := ?a, datetime := s,
                  originalTimestamp := (if timestamp c \<noteq> ?a then Some (timestamp c) else None) \<rparr>"
    by (auto simp: alignCandle_def Let_def split: sum.splits)
  have t: "timestamp c' = ?a" by (simp add: c')
  have again: "(?a div tf) * tf = ?a" using assms(1) by simp
  show ?thesis
    unfolding alignCandle_def Let_def t again s
    by (simp add: c')
qed

text \<open>
  C2, amended. When \<open>alignTimestamps\<close> returns \<open>y\<close> for \<open>x\<close> and the timeframe
  inferred from \<open>y\<close> is the one inferred from \<open>x\<close>, aligning \<open>y\<close> again returns
  \<open>y\<close> itself if that timeframe is undetectable and otherwise \<open>y\<close> with every
  \<open>originalTimestamp\<close> reset to \<open>undefined\<close>: timestamps, datetimes and all other
  members stay.
\<close>

theorem alignTimestamps_again:
  "alignTimestamps isoString x = Inr y \<Longrightarrow>
   getTimeframeFromData y = getTimeframeFromData x \<Longrightarrow>
   alignTimestamps isoString y =
     Inr (if undetectable (getTimeframeFromData x) then y
          else map (\<lambda>c. c \<lparr> originalTimestamp := None \<rparr>) y)"
proof -
  assume a: "alignTimestamps isoString x = Inr y"
    and same: "getTimeframeFromData y = getTimeframeFromData x"
  show ?thesis
  proof (cases "x = [] \<or> undetectable (getTimeframeFromData x)")
    case True
    have yx: "y = x"
    proof (cases "x = []")
      case True
      with a show ?thesis by (simp add: alignTimestamps_def)
    next
      case False
      with \<open>x = [] \<or> undetectable (getTimeframeFromData x)\<close> a show ?thesis
        by (simp add: alignTimestamps_def Let_def)
    qed
    have "x = [] \<Longrightarrow> undetectable (getTimeframeFromData x)"
      by (simp add: getTimeframeFromData_def undetectable_def)
    with True have u: "undetectable (getTimeframeFromData x)" by blast
    show ?thesis using a u by (simp add: yx)
  next
    case False
    then have ne: "x \<noteq> []" and d: "\<not> undetectable (getTimeframeFromData x)" by auto
    let ?tf = "the (getTimeframeFromData x)"
    from d have tf0: "?tf \<noteq> 0" by (auto simp: undetectable_def split: option.splits)
    from a ne d have m: "mapE (alignCandle isoString ?tf) x = Inr y"
      by (simp add: alignTimestamps_def Let_def)
    then have all2: "list_all2 (\<lambda>c c'. alignCandle isoString ?tf c = Inr c') x y"
      by (rule mapE_Inr_all2)
    then have "length x = length y" by (rule list_all2_lengthD)
    with ne have yne: "y \<noteq> []" by auto
    have each: "alignCandle isoString ?tf c' = Inr (c' \<lparr> originalTimestamp := None \<rparr>)"
      if "c' \<in> set y" for c'
    proof -
      from that all2 obtain c where "alignCandle isoString ?tf c = Inr c'"
        by (auto simp: list_all2_conv_all_nth in_set_conv_nth)
      with tf0 show ?thesis by (rule alignCandle_again)
    qed
    have "alignTimestamps isoString y = mapE (alignCandle isoString ?tf) y"
      using yne d by (simp add: alignTimestamps_def Let_def same)
    also have "\<dots> = Inr (map (\<lambda>c. c \<lparr> originalTimestamp := None \<rparr>) y)"
      using each by (rule mapE_map)
    finally show ?thesis using d by simp
  qed
qed

theorem alignTimestamps_again_witness:
  "alignTimestamps plainDate lateSample = Inr lateSampleOnce \<and>
   getTimeframeFromData lateSampleOnce = getTimeframeFromData lateSample \<and>
   alignTimestamps plainDate lateSampleOnce =
     Inr [ohlcv 0 100 105 98 102 10, ohlcv 3600000 102 108 101 106 12,
          ohlcv 7200000 106 107 100 101 7]"
proof -
  have tf: "getTimeframeFromData lateSample = Some 3600000"
    by (simp add: timeframe_eval lateSample_def ohlcv_def)
  have tf': "getTimeframeFromData lateSampleOnce = Some 3600000"
    by (simp add: timeframe_eval lateSampleOnce_def ohlcv_def)
  have h1: "alignTimestamps plainDate lateSample = Inr lateSampleOnce"
    unfolding alignTimestamps_def tf
    by (simp add: undetectable_def lateSample_def lateSampleOnce_def ohlcv_def alignCandle_def
        toISOString_def timeValue_def plainDate_def)
  have h2: "getTimeframeFromData lateSampleOnce = getTimeframeFromData lateSample"
    by (simp add: tf tf')
  from alignTimestamps_again [OF h1 h2]
  have "alignTimestamps plainDate lateSampleOnce =
     Inr (map (\<lambda>c. c \<lparr> originalTimestamp := None \<rparr>) lateSampleOnce)"
    by (simp add: tf undetectable_def)
  then have "alignTimestamps plainDate lateSampleOnce =
     Inr [ohlcv 0 100 105 98 102 10, ohlcv 3600000 102 108 101 106 12,
          ohlcv 7200000 106 107 100 101 7]"
    by (simp add: lateSampleOnce_def ohlcv_def)
  with h1 h2 show ?thesis by simp
qed

subsection \<open>Gap filling\<close>

text \<open>
  For a positive stride the loop of \<open>generateExpectedTimestamps\<close> returns: the start,
  then one timestamp per stride up to the end.
\<close>

lemma gridList_Suc: "gridList start stride (Suc n) = start # gridList (start + stride) stride n"
proof -
  have "map (\<lambda>k. start + int k * stride) [0 ..< Suc n] =
        (start + int 0 * stride) # map (\<lambda>k. start + int (Suc k) * stride) [0 ..< n]"
    by (simp only: map_upt_Suc)
  then show ?thesis by (simp add: gridList_def algebra_simps)
qed

lemma generateExpectedTimestamps_loop_returns:
  assumes "0 < tf"
  shows "\<exists>n. generateExpectedTimestamps_loop cur e tf ts = Some (ts @ gridList cur tf n) \<and>
             (cur \<le> e \<longrightarrow> 0 < n \<and> cur + int (n - 1) * tf \<le> e) \<and>
             (e < cur \<longrightarrow> n = 0) \<and> e < cur + int n * tf"
proof (induction "nat (e + 1 - cur)" arbitrary: cur ts rule: less_induct)
  case less
  show ?case
  proof (cases "cur \<le> e")
    case False
    then have "generateExpectedTimestamps_loop cur e tf ts = Some ts"
      by (subst generateExpectedTimestamps_loop.simps) simp
    with False show ?thesis by (intro exI [of _ 0]) (simp add: gridList_def)
  next
    case True
    then have step: "generateExpectedTimestamps_loop cur e tf ts =
        generateExpectedTimestamps_loop (cur + tf) e tf (ts @ [cur])"
      by (subst generateExpectedTimestamps_loop.simps) simp
    have "nat (e + 1 - (cur + tf)) < nat (e + 1 - cur)" using True assms by simp
    from less [OF this, of "ts @ [cur]"]
    obtain n where n: "generateExpectedTimestamps_loop (cur + tf) e tf (ts @ [cur]) =
          Some ((ts @ [cur]) @ gridList (cur + tf) tf n)"
      and lo: "cur + tf \<le> e \<longrightarrow> 0 < n \<and> cur + tf + int (n - 1) * tf \<le> e"
      and zero: "e < cur + tf \<longrightarrow> n = 0"
      and hi: "e < cur + tf + int n * tf"
      by blast
    have a: "generateExpectedTimestamps_loop cur e tf ts = Some (ts @ gridList cur tf (Suc n))"
      by (simp add: step n gridList_Suc)
    have b: "cur + int (Suc n - 1) * tf \<le> e"
    proof (cases "cur + tf \<le> e")
      case True
      with lo have "0 < n" "cur + tf + int (n - 1) * tf \<le> e" by auto
      then show ?thesis by (cases n) (simp_all add: algebra_simps)
    next
      case False
      with zero have "n = 0" by simp
      with True show ?thesis by simp
    qed
    have c: "e < cur + int (Suc n) * tf" using hi by (simp add: algebra_simps)
    show ?thesis using a b c True by (intro exI [of _ "Suc n"]) simp
  qed
qed

lemma mkDataMap_fold:
  "fold (\<lambda>candle m. m(timestamp candle \<mapsto> candle)) (xs :: candle list) m0 t =
     (case filter (\<lambda>c. timestamp c = t) xs of [] \<Rightarrow> m0 t | c # cs \<Rightarrow> Some (last (c # cs)))"
proof (induction xs arbitrary: m0)
  case Nil
  then show ?case by simp
next
  case (Cons x xs)
  let ?F = "\<lambda>candle (m :: int \<rightharpoonup> candle). m(timestamp candle \<mapsto> candle)"
  have "fold ?F (x # xs) m0 t = fold ?F xs (m0(timestamp x \<mapsto> x)) t"
    by (simp only: fold_simps o_apply)
  also have "\<dots> = (case filter (\<lambda>c. timestamp c = t) xs of
                      [] \<Rightarrow> (m0(timestamp x \<mapsto> x)) t | c # cs \<Rightarrow> Some (last (c # cs)))"
    by (rule Cons.IH)
  also have "\<dots> = (case filter (\<lambda>c. timestamp c = t) (x # xs) of
                      [] \<Rightarrow> m0 t | c # cs \<Rightarrow> Some (last (c # cs)))"
    by (cases "timestamp x = t") (auto split: list.splits)
  finally show ?case .
qed

lemma mkDataMap_Some:
  assumes "mkDataMap xs t = Some c"
  shows "c \<in> set xs" and "timestamp c = t"
proof -
  from assms obtain d ds where f: "filter (\<lambda>c. timestamp c = t) xs = d # ds"
    and c: "c = last (d # ds)"
    by (auto simp: mkDataMap_def mkDataMap_fold split: list.splits)
  have "c \<in> set (d # ds)" unfolding c by (rule last_in_set) simp
  then have "c \<in> set (filter (\<lambda>c. timestamp c = t) xs)" by (simp add: f)
  then show "c \<in> set xs" and "timestamp c = t" by auto
qed

lemma mkDataMap_None:
  "mkDataMap xs t = None \<longleftrightarrow> t \<notin> timestamp ` set xs"
proof -
  have "filter (\<lambda>c. timestamp c = t) xs = [] \<longleftrightarrow> t \<notin> timestamp ` set xs"
    by (auto simp: filter_empty_conv)
  then show ?thesis
    by (auto simp: mkDataMap_def mkDataMap_fold split: list.splits)
qed

lemma forwardFill_cong: "close a = close b \<Longrightarrow> forwardFill t s a = forwardFill t s b"
  by (simp add: forwardFill_def)

lemma close_forwardFill: "close (forwardFill t s lv) = close lv"
  by (simp add: forwardFill_def)

lemma fillLoop_Some:
  "fillLoop isoString m ts filled (Some lv) = Inr out \<Longrightarrow> close prev = close lv \<Longrightarrow>
   \<exists>rest. out = filled @ rest \<and> filledFrom isoString m prev ts rest"
proof (induction ts arbitrary: filled lv prev)
  case Nil
  then show ?case by simp
next
  case (Cons t ts)
  show ?case
  proof (cases "m t")
    case (Some d)
    with Cons.prems have "fillLoop isoString m ts (filled @ [d]) (Some d) = Inr out" by simp
    from Cons.IH [OF this refl]
    obtain rest where "out = (filled @ [d]) @ rest" "filledFrom isoString m d ts rest" by blast
    then have "out = filled @ (d # rest) \<and> filledFrom isoString m prev (t # ts) (d # rest)"
      using Some by simp
    then show ?thesis by blast
  next
    case None
    have tv: "timeValue t"
    proof (rule ccontr)
      assume "\<not> timeValue t"
      then have "toISOString isoString t = Inl RangeError" by (simp add: toISOString_def)
      with None have "fillLoop isoString m (t # ts) filled (Some lv) = Inl RangeError" by simp
      with Cons.prems(1) show False by simp
    qed
    then have iso: "toISOString isoString t = Inr (isoString t)" by (simp add: toISOString_def)
    let ?f = "forwardFill t (isoString t) lv"
    from Cons.prems(1) None iso
    have "fillLoop isoString m ts (filled @ [?f]) (Some lv) = Inr out"
      by simp
    from Cons.IH [OF this, of ?f]
    obtain rest where r: "out = (filled @ [?f]) @ rest" "filledFrom isoString m ?f ts rest"
      by (auto simp: close_forwardFill)
    have "?f = forwardFill t (isoString t) prev"
      by (rule forwardFill_cong) (simp add: Cons.prems(2))
    with r have "out = filled @ (?f # rest) \<and> filledFrom isoString m prev (t # ts) (?f # rest)"
      using None tv by simp
    then show ?thesis by blast
  qed
qed


lemma fillLoop_returns:
  "(\<And>t. t \<in> set ts \<Longrightarrow> timeValue t) \<Longrightarrow> \<exists>out. fillLoop isoString m ts filled lastValid = Inr out"
proof (induction ts arbitrary: filled lastValid)
  case Nil
  then show ?case by simp
next
  case (Cons t ts)
  then have tv: "timeValue t" and rest: "\<And>u. u \<in> set ts \<Longrightarrow> timeValue u" by auto
  show ?case
    using Cons.IH [OF rest] tv
    by (simp add: toISOString_def split: option.splits)
qed

lemma filledFrom_nth:
  "filledFrom isoString m prev ts cs \<Longrightarrow>
   length cs = length ts \<and>
   (\<forall>i < length ts.
      (case m (ts ! i) of Some d \<Rightarrow> cs ! i = d
       | None \<Rightarrow> timeValue (ts ! i) \<and>
           cs ! i = forwardFill (ts ! i) (isoString (ts ! i)) (if i = 0 then prev else cs ! (i - 1))))"
proof (induction isoString m prev ts cs rule: filledFrom.induct)
  case (1 isoString dataMap prev cs)
  then show ?case by simp
next
  case (2 isoString dataMap prev t ts)
  then show ?case by simp
next
  case (3 isoString dataMap prev t ts c cs)
  from "3.prems" have hd: "case dataMap t of Some d \<Rightarrow> c = d
       | None \<Rightarrow> timeValue t \<and> c = forwardFill t (isoString t) prev"
    and tl: "filledFrom isoString dataMap c ts cs" by simp_all
  from "3.IH" [OF tl] have len: "length cs = length ts"
    and ih: "\<And>i. i < length ts \<Longrightarrow>
      (case dataMap (ts ! i) of Some d \<Rightarrow> cs ! i = d
       | None \<Rightarrow> timeValue (ts ! i) \<and>
           cs ! i = forwardFill (ts ! i) (isoString (ts ! i)) (if i = 0 then c else cs ! (i - 1)))"
    by blast+
  have "case dataMap ((t # ts) ! i) of Some d \<Rightarrow> (c # cs) ! i = d
       | None \<Rightarrow> timeValue ((t # ts) ! i) \<and>
           (c # cs) ! i = forwardFill ((t # ts) ! i) (isoString ((t # ts) ! i))
             (if i = 0 then prev else (c # cs) ! (i - 1))"
    if "i < length (t # ts)" for i
  proof (cases i)
    case 0
    with hd show ?thesis by (simp split: option.splits)
  next
    case (Suc j)
    with that have j: "j < length ts" by simp
    from ih [OF j] show ?thesis
      unfolding Suc by (cases j) (simp_all split: option.splits)
  qed
  with len show ?case by simp
qed

lemma gridList_nth: "i < n \<Longrightarrow> gridList start stride n ! i = start + int i * stride"
  by (simp add: gridList_def)

lemma gridList_length: "length (gridList start stride n) = n"
  by (simp add: gridList_def)

lemma sorted_differences_nonneg:
  assumes "sorted (map timestamp data)" "d \<in> set (differences data)"
  shows "0 \<le> d"
proof -
  from assms(2) obtain i where i: "i < min (length data) 10 - 1" and d: "d = differences data ! i"
    by (auto simp: in_set_conv_nth differences_length)
  from i have "Suc i < length data" by simp
  with assms(1) have "map timestamp data ! i \<le> map timestamp data ! Suc i"
    by (intro sorted_nth_mono) simp_all
  with \<open>Suc i < length data\<close> have "timestamp (data ! i) \<le> timestamp (data ! (i + 1))" by simp
  then show ?thesis unfolding d differences_nth [OF i] by simp
qed

lemma handleMissingValues_shape:
  assumes tf: "getTimeframeFromData (sort_key timestamp data) = Some tf" and nz: "tf \<noteq> 0"
  shows "\<exists>n r. handleMissingValues isoString data = Some r \<and> 0 < tf \<and> 0 < n \<and>
           generateExpectedTimestamps (timestamp (sort_key timestamp data ! 0))
             (timestamp (sort_key timestamp data ! (length data - 1))) tf =
             Some (gridList (timestamp (sort_key timestamp data ! 0)) tf n) \<and>
           timestamp (sort_key timestamp data ! 0) + int (n - 1) * tf
             \<le> timestamp (sort_key timestamp data ! (length data - 1)) \<and>
           (\<forall>out. r = Inr out \<longrightarrow>
              length out = n \<and>
              (\<forall>i < n.
                 timestamp (out ! i) = timestamp (sort_key timestamp data ! 0) + int i * tf \<and>
                 (case mkDataMap (sort_key timestamp data)
                         (timestamp (sort_key timestamp data ! 0) + int i * tf) of
                    Some d \<Rightarrow> out ! i = d
                  | None \<Rightarrow> 0 < i \<and>
                      out ! i = forwardFill (timestamp (sort_key timestamp data ! 0) + int i * tf)
                        (isoString (timestamp (sort_key timestamp data ! 0) + int i * tf))
                        (out ! (i - 1))))) \<and>
           ((\<forall>c \<in> set data. timeValue (timestamp c)) \<longrightarrow> (\<exists>out. r = Inr out))"
proof -
  let ?sd = "sort_key timestamp data"
  let ?t0 = "timestamp (?sd ! 0)"
  let ?te = "timestamp (?sd ! (length ?sd - 1))"
  let ?m = "mkDataMap ?sd"
  have len2: "2 \<le> length ?sd"
  proof (rule ccontr)
    assume "\<not> 2 \<le> length ?sd"
    then have "getTimeframeFromData ?sd = None" by (simp add: getTimeframeFromData_def)
    with tf show False by simp
  qed
  then have ne: "data \<noteq> []" by auto
  have srt: "sorted (map timestamp ?sd)" by (rule sorted_sort_key)
  from getTimeframeFromData_Some [OF len2] tf have "tf \<in> set (differences ?sd)" by auto
  with srt have "0 \<le> tf" by (rule sorted_differences_nonneg)
  with nz have pos: "0 < tf" by simp
  have det: "\<not> undetectable (getTimeframeFromData ?sd)"
    using nz by (simp add: tf undetectable_def)
  have "map timestamp ?sd ! 0 \<le> map timestamp ?sd ! (length ?sd - 1)"
    using srt ne by (intro sorted_nth_mono) simp_all
  moreover have "0 < length ?sd" "length ?sd - 1 < length ?sd" using ne by simp_all
  ultimately have t0e: "?t0 \<le> ?te" by (simp only: nth_map)
  from generateExpectedTimestamps_loop_returns [OF pos, of ?t0 ?te "[]"] t0e
  obtain n where gen: "generateExpectedTimestamps ?t0 ?te tf = Some (gridList ?t0 tf n)"
    and npos: "0 < n" and top: "?t0 + int (n - 1) * tf \<le> ?te"
    by (auto simp: generateExpectedTimestamps_def)
  let ?r = "fillLoop isoString ?m (gridList ?t0 tf n) [] None"
  have hmv: "handleMissingValues isoString data = Some ?r"
    using ne det gen by (simp add: handleMissingValues_def Let_def tf)
  have "?sd ! 0 \<in> set ?sd" using ne by (intro nth_mem) simp
  then have "?t0 \<in> timestamp ` set ?sd" by (rule imageI)
  then obtain c0 where c0: "?m ?t0 = Some c0"
    using mkDataMap_None [of ?sd ?t0] by (cases "?m ?t0") auto
  from npos obtain n' where n': "n = Suc n'" by (cases n) auto
  let ?rest = "gridList (?t0 + tf) tf n'"
  have grid: "gridList ?t0 tf n = ?t0 # ?rest" by (simp add: n' gridList_Suc)
  have first: "?r = fillLoop isoString ?m ?rest [c0] (Some c0)"
    by (simp add: grid c0)
  have props: "length out = n \<and>
      (\<forall>i < n.
         timestamp (out ! i) = ?t0 + int i * tf \<and>
         (case ?m (?t0 + int i * tf) of
            Some d \<Rightarrow> out ! i = d
          | None \<Rightarrow> 0 < i \<and>
              out ! i = forwardFill (?t0 + int i * tf) (isoString (?t0 + int i * tf))
                (out ! (i - 1))))" if out: "?r = Inr out" for out
  proof -
    from out first have "fillLoop isoString ?m ?rest [c0] (Some c0) = Inr out" by simp
    from fillLoop_Some [OF this refl]
    obtain rest' where o: "out = [c0] @ rest'" and ff: "filledFrom isoString ?m c0 ?rest rest'"
      by blast
    have "filledFrom isoString ?m c0 (gridList ?t0 tf n) out"
      unfolding grid o using ff c0 by simp
    from filledFrom_nth [OF this]
    have len: "length out = n"
      and nth: "\<And>i. i < n \<Longrightarrow>
        (case ?m (gridList ?t0 tf n ! i) of Some d \<Rightarrow> out ! i = d
         | None \<Rightarrow> timeValue (gridList ?t0 tf n ! i) \<and>
             out ! i = forwardFill (gridList ?t0 tf n ! i) (isoString (gridList ?t0 tf n ! i))
               (if i = 0 then c0 else out ! (i - 1)))"
      by (simp_all add: gridList_length)
    have "timestamp (out ! i) = ?t0 + int i * tf \<and>
         (case ?m (?t0 + int i * tf) of
            Some d \<Rightarrow> out ! i = d
          | None \<Rightarrow> 0 < i \<and>
              out ! i = forwardFill (?t0 + int i * tf) (isoString (?t0 + int i * tf))
                (out ! (i - 1)))" if i: "i < n" for i
    proof (cases "?m (?t0 + int i * tf)")
      case (Some d)
      with nth [OF i] have "out ! i = d" by (simp add: gridList_nth [OF i])
      moreover from mkDataMap_Some(2) [OF Some] have "timestamp d = ?t0 + int i * tf" .
      ultimately show ?thesis using Some by simp
    next
      case None
      with c0 have "i \<noteq> 0" by (cases i) auto
      with nth [OF i] None
      have "out ! i = forwardFill (?t0 + int i * tf) (isoString (?t0 + int i * tf))
                (out ! (i - 1))"
        by (simp add: gridList_nth [OF i])
      moreover from this have "timestamp (out ! i) = ?t0 + int i * tf"
        by (simp add: forwardFill_def)
      ultimately show ?thesis using None \<open>i \<noteq> 0\<close> by simp
    qed
    with len show ?thesis by blast
  qed
  have returns: "\<exists>out. ?r = Inr out" if valid: "\<forall>c \<in> set data. timeValue (timestamp c)"
  proof (rule fillLoop_returns)
    fix t assume "t \<in> set (gridList ?t0 tf n)"
    then obtain i where i: "i < n" and t: "t = ?t0 + int i * tf"
      by (auto simp: in_set_conv_nth gridList_length gridList_nth)
    have "?sd ! 0 \<in> set data" "?sd ! (length ?sd - 1) \<in> set data"
      using ne nth_mem [of 0 ?sd] nth_mem [of "length ?sd - 1" ?sd] by simp_all
    with valid have v0: "timeValue ?t0" and ve: "timeValue ?te" by blast+
    have "int i * tf \<le> int (n - 1) * tf"
      using i pos by (intro mult_right_mono) simp_all
    with top have "t \<le> ?te" unfolding t by simp
    moreover have "?t0 \<le> t" unfolding t using pos by simp
    ultimately show "timeValue t" using v0 ve by (simp add: timeValue_def)
  qed
  show ?thesis
    using hmv pos npos gen top props returns
    by (intro exI [of _ n] exI [of _ ?r]) simp
qed

text \<open>The gap sample: sorted, its timeframe, its expected timestamps, its result.\<close>

lemma gapSample_sorted:
  "sort_key timestamp gapSample =
     [ohlcv 0 100 105 98 102 10, ohlcv 3600000 102 108 101 106 12,
      ohlcv 7200000 106 107 100 101 7, ohlcv 14400000 101 104 99 103 9]"
  by (simp add: gapSample_def ohlcv_def)

lemma gapSample_timeframe: "getTimeframeFromData (sort_key timestamp gapSample) = Some 3600000"
  unfolding gapSample_sorted by (simp add: timeframe_eval ohlcv_def)

lemma gapSample_expected:
  "generateExpectedTimestamps 0 14400000 3600000 = Some [0, 3600000, 7200000, 10800000, 14400000]"
  by (simp add: generateExpectedTimestamps_def generateExpectedTimestamps_loop.simps)

lemma gapSample_filled: "handleMissingValues plainDate gapSample = Some (Inr gapFilled)"
proof -
  have ne: "gapSample \<noteq> []" by (simp add: gapSample_def)
  have ends: "timestamp (sort_key timestamp gapSample ! 0) = 0"
    "timestamp (sort_key timestamp gapSample ! (length (sort_key timestamp gapSample) - 1)) = 14400000"
    unfolding gapSample_sorted by (simp_all add: ohlcv_def)
  have "fillLoop plainDate (mkDataMap (sort_key timestamp gapSample))
          [0, 3600000, 7200000, 10800000, 14400000] [] None = Inr gapFilled"
    unfolding gapSample_sorted
    by (simp add: mkDataMap_def gapFilled_def ohlcv_def forwardFill_def toISOString_def
        timeValue_def plainDate_def)
  then show ?thesis
    unfolding handleMissingValues_def Let_def gapSample_timeframe ends
    by (simp add: ne undetectable_def gapSample_expected)
qed

text \<open>
  C3. For an input of two or more candles whose timeframe is detected (inferred from the
  sorted input, not \<open>null\<close> and not 0), \<open>handleMissingValues\<close> terminates; when it
  returns, the output is not empty, starts at the first sorted input timestamp (no
  leading segment is left out), is strictly ascending in its timestamps, and every two
  consecutive output timestamps differ by exactly the timeframe. It returns (rather than
  throws) whenever the input timestamps are time values.
\<close>

theorem handleMissingValues_spacing:
  "2 \<le> length data \<Longrightarrow> getTimeframeFromData (sort_key timestamp data) = Some tf \<Longrightarrow> tf \<noteq> 0 \<Longrightarrow>
   \<exists>r. handleMissingValues isoString data = Some r \<and>
       (\<forall>out. r = Inr out \<longrightarrow>
          out \<noteq> [] \<and> timestamp (out ! 0) = timestamp (sort_key timestamp data ! 0) \<and>
          sorted_wrt (<) (map timestamp out) \<and>
          (\<forall>i. i + 1 < length out \<longrightarrow> timestamp (out ! (i + 1)) - timestamp (out ! i) = tf)) \<and>
       ((\<forall>c \<in> set data. timeValue (timestamp c)) \<longrightarrow> (\<exists>out. r = Inr out))"
proof -
  assume tf: "getTimeframeFromData (sort_key timestamp data) = Some tf" and nz: "tf \<noteq> 0"
  let ?t0 = "timestamp (sort_key timestamp data ! 0)"
  from handleMissingValues_shape [OF tf nz, of isoString]
  obtain n r where r: "handleMissingValues isoString data = Some r"
    and pos: "0 < tf" and npos: "0 < n"
    and shape: "\<And>out. r = Inr out \<Longrightarrow> length out = n \<and>
                  (\<forall>i < n. timestamp (out ! i) = ?t0 + int i * tf)"
    and ret: "(\<forall>c \<in> set data. timeValue (timestamp c)) \<longrightarrow> (\<exists>out. r = Inr out)"
    by blast
  have "out \<noteq> [] \<and> timestamp (out ! 0) = ?t0 \<and> sorted_wrt (<) (map timestamp out) \<and>
        (\<forall>i. i + 1 < length out \<longrightarrow> timestamp (out ! (i + 1)) - timestamp (out ! i) = tf)"
    if "r = Inr out" for out
  proof -
    from shape [OF that] have len: "length out = n"
      and ts: "\<And>i. i < n \<Longrightarrow> timestamp (out ! i) = ?t0 + int i * tf" by blast+
    from len npos have a: "out \<noteq> []" by auto
    from ts [OF npos] have b: "timestamp (out ! 0) = ?t0" by simp
    have c: "sorted_wrt (<) (map timestamp out)"
      unfolding sorted_wrt_iff_nth_less
    proof (intro allI impI)
      fix i j assume "i < j" "j < length (map timestamp out)"
      then have i: "i < n" and j: "j < n" using len by simp_all
      have "int i * tf < int j * tf" using \<open>i < j\<close> pos by simp
      then show "map timestamp out ! i < map timestamp out ! j"
        using i j len by (simp add: ts)
    qed
    have d: "timestamp (out ! (i + 1)) - timestamp (out ! i) = tf" if "i + 1 < length out" for i
    proof -
      from that len have "i + 1 < n" "i < n" by simp_all
      then show ?thesis by (simp add: ts algebra_simps)
    qed
    show ?thesis using a b c d by blast
  qed
  with r ret show ?thesis by blast
qed

theorem handleMissingValues_spacing_witness:
  "2 \<le> length gapSample \<and>
   getTimeframeFromData (sort_key timestamp gapSample) = Some 3600000 \<and>
   handleMissingValues plainDate gapSample = Some (Inr gapFilled) \<and>
   map timestamp gapFilled = [0, 3600000, 7200000, 10800000, 14400000] \<and>
   sorted_wrt (<) (map timestamp gapFilled) \<and>
   timestamp (gapFilled ! 3) - timestamp (gapFilled ! 2) = 3600000"
proof -
  have h1: "2 \<le> length gapSample" by (simp add: gapSample_def)
  have h3: "(3600000 :: int) \<noteq> 0" by simp
  from handleMissingValues_spacing [OF h1 gapSample_timeframe h3, of plainDate]
  have a: "sorted_wrt (<) (map timestamp gapFilled)"
    and b: "\<And>i. i + 1 < length gapFilled \<Longrightarrow>
              timestamp (gapFilled ! (i + 1)) - timestamp (gapFilled ! i) = 3600000"
    by (simp_all add: gapSample_filled)
  have "2 + 1 < length gapFilled" by (simp add: gapFilled_def)
  from b [OF this] have c: "timestamp (gapFilled ! 3) - timestamp (gapFilled ! 2) = 3600000"
    by simp
  have d: "map timestamp gapFilled = [0, 3600000, 7200000, 10800000, 14400000]"
    by (simp add: gapFilled_def ohlcv_def)
  show ?thesis using h1 gapSample_timeframe gapSample_filled a c d by simp
qed







text \<open>The off-grid sample: already sorted, its timeframe is ten minutes.\<close>

lemma offGridSample_sorted: "sort_key timestamp offGridSample = offGridSample"
  by (simp add: offGridSample_def ohlcv_def)

lemma offGridSample_timeframe:
  "getTimeframeFromData (sort_key timestamp offGridSample) = Some 600000"
  unfolding offGridSample_sorted by (simp add: timeframe_eval offGridSample_def ohlcv_def)

lemma offGridSample_filled:
  "handleMissingValues isoString offGridSample =
     Some (Inr [ohlcv 0 100 105 98 102 10, ohlcv 600000 102 108 101 106 12,
                ohlcv 1200000 106 107 100 101 7, ohlcv 1800000 103 106 102 105 11])"
proof -
  have ne: "offGridSample \<noteq> []" by (simp add: offGridSample_def)
  have ends: "timestamp (offGridSample ! 0) = 0"
    "timestamp (offGridSample ! (length offGridSample - 1)) = 1800000"
    by (simp_all add: offGridSample_def ohlcv_def)
  have gen: "generateExpectedTimestamps 0 1800000 600000 = Some [0, 600000, 1200000, 1800000]"
    by (simp add: generateExpectedTimestamps_def generateExpectedTimestamps_loop.simps)
  have "fillLoop isoString (mkDataMap offGridSample) [0, 600000, 1200000, 1800000] [] None =
      Inr [ohlcv 0 100 105 98 102 10, ohlcv 600000 102 108 101 106 12,
           ohlcv 1200000 106 107 100 101 7, ohlcv 1800000 103 106 102 105 11]"
    by (simp add: mkDataMap_def offGridSample_def ohlcv_def)
  then show ?thesis
    unfolding handleMissingValues_def Let_def offGridSample_timeframe
    unfolding offGridSample_sorted ends
    by (simp add: ne undetectable_def gen)
qed

text \<open>
  C4. When \<open>handleMissingValues\<close> detects a timeframe and returns, every output candle
  has a timestamp "first sorted input timestamp plus \<open>k\<close> timeframes" for a natural
  number \<open>k\<close>, and an input candle whose timestamp is not of that form is not in the
  output. So the output can be shorter than the input although nothing is missing at the
  start: the sample at minutes 0, 10, 20, 25, 30 has the timeframe ten minutes and comes
  back as the four candles at minutes 0, 10, 20 and 30.
\<close>

theorem handleMissingValues_grid:
  "(getTimeframeFromData (sort_key timestamp data) = Some tf \<and> tf \<noteq> 0 \<and>
    handleMissingValues isoString data = Some (Inr out) \<longrightarrow>
      (\<forall>c \<in> set out. \<exists>k::nat. timestamp c = timestamp (sort_key timestamp data ! 0) + int k * tf) \<and>
      (\<forall>c \<in> set data.
         (\<forall>k::nat. timestamp c \<noteq> timestamp (sort_key timestamp data ! 0) + int k * tf) \<longrightarrow>
         c \<notin> set out)) \<and>
   getTimeframeFromData (sort_key timestamp offGridSample) = Some 600000 \<and>
   handleMissingValues isoString offGridSample =
     Some (Inr [ohlcv 0 100 105 98 102 10, ohlcv 600000 102 108 101 106 12,
                ohlcv 1200000 106 107 100 101 7, ohlcv 1800000 103 106 102 105 11]) \<and>
   length [ohlcv 0 100 105 98 102 10, ohlcv 600000 102 108 101 106 12,
           ohlcv 1200000 106 107 100 101 7, ohlcv 1800000 103 106 102 105 11]
     < length offGridSample"
proof -
  have grid: "(\<forall>c \<in> set out. \<exists>k::nat. timestamp c = timestamp (sort_key timestamp data ! 0) + int k * tf) \<and>
      (\<forall>c \<in> set data.
         (\<forall>k::nat. timestamp c \<noteq> timestamp (sort_key timestamp data ! 0) + int k * tf) \<longrightarrow>
         c \<notin> set out)"
    if tf: "getTimeframeFromData (sort_key timestamp data) = Some tf" and nz: "tf \<noteq> 0"
      and out: "handleMissingValues isoString data = Some (Inr out)"
  proof -
    let ?t0 = "timestamp (sort_key timestamp data ! 0)"
    from handleMissingValues_shape [OF tf nz, of isoString] out
    obtain n where len: "length out = n"
      and nth: "\<And>i. i < n \<Longrightarrow> timestamp (out ! i) = ?t0 + int i * tf"
      by auto
    have on: "\<exists>k::nat. timestamp c = ?t0 + int k * tf" if "c \<in> set out" for c
    proof -
      from that obtain i where "i < length out" "c = out ! i" by (auto simp: in_set_conv_nth)
      with len nth [of i] show ?thesis by auto
    qed
    then show ?thesis by blast
  qed
  have "length [ohlcv 0 100 105 98 102 10, ohlcv 600000 102 108 101 106 12,
           ohlcv 1200000 106 107 100 101 7, ohlcv 1800000 103 106 102 105 11]
     < length offGridSample"
    by (simp add: offGridSample_def)
  with grid offGridSample_timeframe offGridSample_filled [of isoString] show ?thesis
    by blast
qed

theorem handleMissingValues_grid_witness:
  "getTimeframeFromData (sort_key timestamp offGridSample) = Some 600000 \<and>
   handleMissingValues plainDate offGridSample =
     Some (Inr [ohlcv 0 100 105 98 102 10, ohlcv 600000 102 108 101 106 12,
                ohlcv 1200000 106 107 100 101 7, ohlcv 1800000 103 106 102 105 11]) \<and>
   ohlcv 1500000 101 104 99 103 9 \<in> set offGridSample \<and>
   ohlcv 1500000 101 104 99 103 9 \<notin>
     set [ohlcv 0 100 105 98 102 10, ohlcv 600000 102 108 101 106 12,
          ohlcv 1200000 106 107 100 101 7, ohlcv 1800000 103 106 102 105 11]"
proof -
  let ?out = "[ohlcv 0 100 105 98 102 10, ohlcv 600000 102 108 101 106 12,
               ohlcv 1200000 106 107 100 101 7, ohlcv 1800000 103 106 102 105 11]"
  let ?c = "ohlcv 1500000 101 104 99 103 9"
  have prem: "getTimeframeFromData (sort_key timestamp offGridSample) = Some 600000 \<and>
      (600000 :: int) \<noteq> 0 \<and> handleMissingValues plainDate offGridSample = Some (Inr ?out)"
    using offGridSample_timeframe offGridSample_filled [of plainDate] by simp
  note g = handleMissingValues_grid [of offGridSample 600000 plainDate ?out]
  note universal = mp [OF conjunct1 [OF g] prem]
  note absent = conjunct2 [OF universal]
  have mem: "?c \<in> set offGridSample" by (simp add: offGridSample_def)
  have t0: "timestamp (sort_key timestamp offGridSample ! 0) = 0"
    unfolding offGridSample_sorted by (simp add: offGridSample_def ohlcv_def)
  have "(1500000 :: int) \<noteq> int k * 600000" for k
  proof
    assume "(1500000 :: int) = int k * 600000"
    then have "2 * int k = 5" by simp
    then have "(2 * int k) mod 2 = 5 mod 2" by (rule arg_cong)
    then show False by simp
  qed
  then have "\<forall>k::nat. timestamp ?c \<noteq> timestamp (sort_key timestamp offGridSample ! 0) + int k * 600000"
    by (simp add: t0 ohlcv_def)
  with bspec [OF absent mem] have "?c \<notin> set ?out" by (rule mp)
  with offGridSample_timeframe offGridSample_filled [of plainDate] mem show ?thesis by blast
qed

subsection \<open>Indicator series\<close>

text \<open>The padding makes up the difference between the input and the package's output.\<close>

lemma padded_length:
  "m \<le> n \<Longrightarrow> length (replicate (n - m) None @ xs) = n \<longleftrightarrow> length xs = m"
  by auto

lemma padded_nth: "i < n - m \<Longrightarrow> (replicate (n - m) None @ xs) ! i = None"
  by (simp add: nth_append)

lemma calculateSMA_length:
  assumes "period \<le> int (length data)"
    and "length (SMA_calculate period (map close data)) \<le> length data"
  shows "\<exists>out. calculateSMA SMA_calculate data period = Inr out \<and> length out = length data \<and>
           (\<forall>i < length data - length (SMA_calculate period (map close data)). out ! i = None)"
  using assms by (simp add: calculateSMA_def Let_def padded_nth)

lemma calculateEMA_length:
  assumes "period \<le> int (length data)"
    and "length (EMA_calculate period (map close data)) \<le> length data"
  shows "\<exists>out. calculateEMA EMA_calculate data period = Inr out \<and> length out = length data \<and>
           (\<forall>i < length data - length (EMA_calculate period (map close data)). out ! i = None)"
  using assms by (simp add: calculateEMA_def Let_def padded_nth)

lemma calculateRSI_length:
  assumes "period + 1 \<le> int (length data)"
    and "length (RSI_calculate period (map close data)) \<le> length data"
  shows "\<exists>out. calculateRSI RSI_calculate data period = Inr out \<and> length out = length data \<and>
           (\<forall>i < length data - length (RSI_calculate period (map close data)). out ! i = None)"
  using assms by (simp add: calculateRSI_def Let_def padded_nth)

lemma calculateATR_length:
  assumes "period + 1 \<le> int (length data)"
    and "length (ATR_calculate period (map high data) (map low data) (map close data))
           \<le> length data"
  shows "\<exists>out. calculateATR ATR_calculate data period = Inr out \<and> length out = length data \<and>
           (\<forall>i < length data -
                  length (ATR_calculate period (map high data) (map low data) (map close data)).
              out ! i = None)"
  using assms by (simp add: calculateATR_def Let_def padded_nth comp_def)

lemma calculateMACD_length:
  assumes "slowPeriod + signalPeriod \<le> int (length data)"
    and "length (MACD_calculate fastPeriod slowPeriod signalPeriod (map close data)) \<le> length data"
  shows "\<exists>out. calculateMACD MACD_calculate data fastPeriod slowPeriod signalPeriod = Inr out \<and>
           length (macd_out out) = length data \<and> length (signal_out out) = length data \<and>
           length (histogram_out out) = length data \<and>
           (\<forall>i < length data -
                  length (MACD_calculate fastPeriod slowPeriod signalPeriod (map close data)).
              macd_out out ! i = None \<and> signal_out out ! i = None \<and>
              histogram_out out ! i = None)"
  using assms by (simp add: calculateMACD_def Let_def padded_nth)

lemma calculateBollingerBands_length:
  assumes "period \<le> int (length data)"
    and "length (BollingerBands_calculate period (map close data) stdDev) \<le> length data"
  shows "\<exists>out. calculateBollingerBands BollingerBands_calculate data period stdDev = Inr out \<and>
           length (upper_out out) = length data \<and> length (middle_out out) = length data \<and>
           length (lower_out out) = length data \<and>
           (\<forall>i < length data - length (BollingerBands_calculate period (map close data) stdDev).
              upper_out out ! i = None \<and> middle_out out ! i = None \<and> lower_out out ! i = None)"
  using assms by (simp add: calculateBollingerBands_def Let_def padded_nth)

lemma calculateStochastic_length:
  assumes "period \<le> int (length data)"
    and "length (Stochastic_calculate period signalPeriod (map high data) (map low data)
                   (map close data)) \<le> length data"
  shows "\<exists>out. calculateStochastic Stochastic_calculate data period signalPeriod = Inr out \<and>
           length (k_out out) = length data \<and> length (d_out out) = length data \<and>
           (\<forall>i < length data -
                  length (Stochastic_calculate period signalPeriod (map high data) (map low data)
                            (map close data)).
              k_out out ! i = None \<and> d_out out ! i = None)"
  using assms by (simp add: calculateStochastic_def Let_def padded_nth comp_def)

lemma calculateReturns_loop_inv:
  "length returns = i \<Longrightarrow> 1 \<le> i \<Longrightarrow> i \<le> length data \<Longrightarrow>
   length (calculateReturns_loop data i returns) = length data \<and>
   calculateReturns_loop data i returns ! 0 = returns ! 0"
proof (induction data i returns rule: calculateReturns_loop.induct)
  case (1 data i returns)
  show ?case
  proof (cases "i < length data")
    case False
    then have "calculateReturns_loop data i returns = returns"
      by (subst calculateReturns_loop.simps) simp
    with False "1.prems" show ?thesis by simp
  next
    case True
    let ?r = "returns @ [Some (returnValue (close (data ! i)) (close (data ! (i - 1))))]"
    have step: "calculateReturns_loop data i returns = calculateReturns_loop data (i + 1) ?r"
      using True by (subst calculateReturns_loop.simps) simp
    from "1.IH" [OF True] "1.prems" True
    have "length (calculateReturns_loop data (i + 1) ?r) = length data \<and>
          calculateReturns_loop data (i + 1) ?r ! 0 = ?r ! 0"
      by simp
    with "1.prems" show ?thesis by (simp add: step nth_append)
  qed
qed

lemma calculateReturns_length:
  "2 \<le> length data \<Longrightarrow>
   length (calculateReturns data) = length data \<and> calculateReturns data ! 0 = None"
  using calculateReturns_loop_inv [of "[None]" 1 data] by (simp add: calculateReturns_def)

lemma calculateOBV_length: "2 \<le> length data \<Longrightarrow> length (calculateOBV data) = length data"
  using calculateOBV_loop_inv [of "[Num 0]" 1 data] by (simp add: calculateOBV_def)

text \<open>
  C5. For each of the nine indicators: on an input that passes the indicator's length
  guard, the output series (each sub-series for MACD, Bollinger Bands and Stochastic) has
  one position per input candle, and the positions before the first computed value are
  \<open>null\<close>; on a shorter input the output is empty, and nothing is thrown. For the
  seven indicators computed by the package, the package's \<open>calculate\<close> function is any
  function that returns no more values than it is given candles; the number of leading
  \<open>null\<close>s is the input length minus the number of values it returns. OBV has no
  \<open>null\<close>; the returns series has one, at position 0.
\<close>

theorem indicator_lengths:
  "(smaPeriod \<le> int (length data) \<and>
    length (SMA_calculate smaPeriod (map close data)) \<le> length data \<longrightarrow>
      (\<exists>out. calculateSMA SMA_calculate data smaPeriod = Inr out \<and> length out = length data \<and>
         (\<forall>i < length data - length (SMA_calculate smaPeriod (map close data)). out ! i = None))) \<and>
   (int (length data) < smaPeriod \<longrightarrow> calculateSMA SMA_calculate data smaPeriod = Inr []) \<and>
   (emaPeriod \<le> int (length data) \<and>
    length (EMA_calculate emaPeriod (map close data)) \<le> length data \<longrightarrow>
      (\<exists>out. calculateEMA EMA_calculate data emaPeriod = Inr out \<and> length out = length data \<and>
         (\<forall>i < length data - length (EMA_calculate emaPeriod (map close data)). out ! i = None))) \<and>
   (int (length data) < emaPeriod \<longrightarrow> calculateEMA EMA_calculate data emaPeriod = Inr []) \<and>
   (rsiPeriod + 1 \<le> int (length data) \<and>
    length (RSI_calculate rsiPeriod (map close data)) \<le> length data \<longrightarrow>
      (\<exists>out. calculateRSI RSI_calculate data rsiPeriod = Inr out \<and> length out = length data \<and>
         (\<forall>i < length data - length (RSI_calculate rsiPeriod (map close data)). out ! i = None))) \<and>
   (int (length data) < rsiPeriod + 1 \<longrightarrow> calculateRSI RSI_calculate data rsiPeriod = Inr []) \<and>
   (slowPeriod + signalPeriod \<le> int (length data) \<and>
    length (MACD_calculate fastPeriod slowPeriod signalPeriod (map close data)) \<le> length data \<longrightarrow>
      (\<exists>out. calculateMACD MACD_calculate data fastPeriod slowPeriod signalPeriod = Inr out \<and>
         length (macd_out out) = length data \<and> length (signal_out out) = length data \<and>
         length (histogram_out out) = length data \<and>
         (\<forall>i < length data -
                length (MACD_calculate fastPeriod slowPeriod signalPeriod (map close data)).
            macd_out out ! i = None \<and> signal_out out ! i = None \<and>
            histogram_out out ! i = None))) \<and>
   (int (length data) < slowPeriod + signalPeriod \<longrightarrow>
      calculateMACD MACD_calculate data fastPeriod slowPeriod signalPeriod =
        Inr \<lparr> macd_out = [], signal_out = [], histogram_out = [] \<rparr>) \<and>
   (bbPeriod \<le> int (length data) \<and>
    length (BollingerBands_calculate bbPeriod (map close data) bbStdDev) \<le> length data \<longrightarrow>
      (\<exists>out. calculateBollingerBands BollingerBands_calculate data bbPeriod bbStdDev = Inr out \<and>
         length (upper_out out) = length data \<and> length (middle_out out) = length data \<and>
         length (lower_out out) = length data \<and>
         (\<forall>i < length data -
                length (BollingerBands_calculate bbPeriod (map close data) bbStdDev).
            upper_out out ! i = None \<and> middle_out out ! i = None \<and>
            lower_out out ! i = None))) \<and>
   (int (length data) < bbPeriod \<longrightarrow>
      calculateBollingerBands BollingerBands_calculate data bbPeriod bbStdDev =
        Inr \<lparr> upper_out = [], middle_out = [], lower_out = [] \<rparr>) \<and>
   (atrPeriod + 1 \<le> int (length data) \<and>
    length (ATR_calculate atrPeriod (map high data) (map low data) (map close data))
      \<le> length data \<longrightarrow>
      (\<exists>out. calculateATR ATR_calculate data atrPeriod = Inr out \<and> length out = length data \<and>
         (\<forall>i < length data -
                length (ATR_calculate atrPeriod (map high data) (map low data) (map close data)).
            out ! i = None))) \<and>
   (int (length data) < atrPeriod + 1 \<longrightarrow> calculateATR ATR_calculate data atrPeriod = Inr []) \<and>
   (stochPeriod \<le> int (length data) \<and>
    length (Stochastic_calculate stochPeriod stochSignalPeriod (map high data) (map low data)
              (map close data)) \<le> length data \<longrightarrow>
      (\<exists>out. calculateStochastic Stochastic_calculate data stochPeriod stochSignalPeriod = Inr out \<and>
         length (k_out out) = length data \<and> length (d_out out) = length data \<and>
         (\<forall>i < length data -
                length (Stochastic_calculate stochPeriod stochSignalPeriod (map high data)
                          (map low data) (map close data)).
            k_out out ! i = None \<and> d_out out ! i = None))) \<and>
   (int (length data) < stochPeriod \<longrightarrow>
      calculateStochastic Stochastic_calculate data stochPeriod stochSignalPeriod =
        Inr \<lparr> k_out = [], d_out = [] \<rparr>) \<and>
   (2 \<le> length data \<longrightarrow> length (calculateOBV data) = length data) \<and>
   (length data < 2 \<longrightarrow> calculateOBV data = []) \<and>
   (2 \<le> length data \<longrightarrow>
      length (calculateReturns data) = length data \<and> calculateReturns data ! 0 = None) \<and>
   (length data < 2 \<longrightarrow> calculateReturns data = [])"
proof (intro conjI impI)
  show "calculateOBV data = []" if "length data < 2"
    using that by (simp add: calculateOBV_def)
  show "calculateReturns data = []" if "length data < 2"
    using that by (simp add: calculateReturns_def)
  show "length (calculateOBV data) = length data" if "2 \<le> length data"
    using that by (rule calculateOBV_length)
  show "length (calculateReturns data) = length data" if "2 \<le> length data"
    using calculateReturns_length [OF that] by simp
  show "calculateReturns data ! 0 = None" if "2 \<le> length data"
    using calculateReturns_length [OF that] by simp
  show "calculateSMA SMA_calculate data smaPeriod = Inr []" if "int (length data) < smaPeriod"
    using that by (simp add: calculateSMA_def)
  show "calculateEMA EMA_calculate data emaPeriod = Inr []" if "int (length data) < emaPeriod"
    using that by (simp add: calculateEMA_def)
  show "calculateRSI RSI_calculate data rsiPeriod = Inr []" if "int (length data) < rsiPeriod + 1"
    using that by (simp add: calculateRSI_def)
  show "calculateATR ATR_calculate data atrPeriod = Inr []" if "int (length data) < atrPeriod + 1"
    using that by (simp add: calculateATR_def)
  show "calculateMACD MACD_calculate data fastPeriod slowPeriod signalPeriod =
        Inr \<lparr> macd_out = [], signal_out = [], histogram_out = [] \<rparr>"
    if "int (length data) < slowPeriod + signalPeriod"
    using that by (simp add: calculateMACD_def)
  show "calculateBollingerBands BollingerBands_calculate data bbPeriod bbStdDev =
        Inr \<lparr> upper_out = [], middle_out = [], lower_out = [] \<rparr>"
    if "int (length data) < bbPeriod"
    using that by (simp add: calculateBollingerBands_def)
  show "calculateStochastic Stochastic_calculate data stochPeriod stochSignalPeriod =
        Inr \<lparr> k_out = [], d_out = [] \<rparr>"
    if "int (length data) < stochPeriod"
    using that by (simp add: calculateStochastic_def)
qed (blast intro: calculateSMA_length calculateEMA_length calculateRSI_length calculateATR_length
      calculateMACD_length calculateBollingerBands_length calculateStochastic_length)+

theorem indicator_lengths_witness:
  "(20 :: int) \<le> int (length flatSample) \<and>
   length (windowMeans 20 (map close flatSample)) \<le> length flatSample \<and>
   calculateSMA windowMeans flatSample 20 = Inr (replicate 19 None @ [Some 100]) \<and>
   length (replicate 19 (None :: real option) @ [Some 100]) = length flatSample \<and>
   int (length obvSample) < 20 \<and> calculateSMA windowMeans obvSample 20 = Inr [] \<and>
   2 \<le> length obvSample \<and> length (calculateOBV obvSample) = length obvSample \<and>
   length (calculateReturns obvSample) = length obvSample \<and>
   calculateReturns obvSample ! 0 = None"
proof -
  have len: "length flatSample = 20" by (simp add: flatSample_def)
  have closes: "map close flatSample = replicate 20 100"
    by (simp add: flatSample_def ohlcv_def)
  have wm: "windowMeans 20 (map close flatSample) = [100]"
    unfolding closes by (simp add: windowMeans_def sum_list_replicate)
  have h1: "(20 :: int) \<le> int (length flatSample)" by (simp add: len)
  have h2: "length (windowMeans 20 (map close flatSample)) \<le> length flatSample"
    by (simp add: wm len)
  note t = indicator_lengths [where data = flatSample and SMA_calculate = windowMeans
      and smaPeriod = 20]
  from mp [OF conjunct1 [OF t] conjI [OF h1 h2]]
  obtain out where out: "calculateSMA windowMeans flatSample 20 = Inr out"
    and lout: "length out = length flatSample" by blast
  have val: "calculateSMA windowMeans flatSample 20 = Inr (replicate 19 None @ [Some 100])"
    by (simp add: calculateSMA_def Let_def wm len)
  with out lout have l2: "length (replicate 19 (None :: real option) @ [Some 100]) = length flatSample"
    by simp
  have h3: "int (length obvSample) < 20" and h4: "2 \<le> length obvSample"
    by (simp_all add: obvSample_def)
  note u = indicator_lengths [where data = obvSample and SMA_calculate = windowMeans
      and smaPeriod = 20]
  from mp [OF u [THEN conjunct2, THEN conjunct1] h3]
  have short: "calculateSMA windowMeans obvSample 20 = Inr []" .
  from mp [OF u [THEN conjunct2, THEN conjunct2, THEN conjunct2, THEN conjunct2, THEN conjunct2, THEN conjunct2, THEN conjunct2, THEN conjunct2, THEN conjunct2, THEN conjunct2, THEN conjunct2, THEN conjunct2, THEN conjunct2, THEN conjunct2, THEN conjunct1] h4]
  have obv: "length (calculateOBV obvSample) = length obvSample" .
  from mp [OF u [THEN conjunct2, THEN conjunct2, THEN conjunct2, THEN conjunct2, THEN conjunct2, THEN conjunct2, THEN conjunct2, THEN conjunct2, THEN conjunct2, THEN conjunct2, THEN conjunct2, THEN conjunct2, THEN conjunct2, THEN conjunct2, THEN conjunct2, THEN conjunct2, THEN conjunct1] h4]
  have ret: "length (calculateReturns obvSample) = length obvSample"
      "calculateReturns obvSample ! 0 = None"
    by simp_all
  from h1 h2 val l2 h3 short h4 obv ret show ?thesis by (intro conjI)
qed

end
